theory Spec2Isabelle
  imports Complex_Main "HOL-Library.Log_Nat" "HOL-Library.Sublist" "HOL-Library.AList"
begin

section \<open>Photorific server: jobs, transfers, scanning and reconciliation\<close>

text \<open>
  A shallow embedding of \<^verbatim>\<open>src/server/index.js\<close>. Strings are \<open>string\<close>, counters
  and byte sizes are \<open>nat\<close> (file sizes and array lengths are non-negative integers far
  below \<open>2^53\<close>, where JavaScript numbers are exact), and the one place where the code
  computes with fractions (the progress percentage) uses a model of double-precision
  rounding. Exceptions are values: \<open>Inl msg\<close> carries \<open>error.message\<close>.
\<close>

subsection \<open>JavaScript values used by the server\<close>

text \<open>
  Truthiness of a string-or-null value, as tested by \<^verbatim>\<open>if (error)\<close>,
  \<^verbatim>\<open>while (continuationToken)\<close> and \<^verbatim>\<open>if (jobId && ...)\<close>: \<open>null\<close>/\<open>undefined\<close> and the
  empty string are falsy.
\<close>

fun truthy :: "string option \<Rightarrow> bool" where
  "truthy None = False"
| "truthy (Some s) = (s \<noteq> [])"

text \<open>
  A JavaScript number as far as the progress computation needs it: a finite value
  (kept as the rational it denotes), the two infinities and NaN. Signed zeros are not
  distinguished.
\<close>

datatype jsnum = Fin rat | PosInf | NegInf | NaN

text \<open>Round to the nearest integer, ties to the even one (the IEEE 754 default).\<close>

definition rne :: "rat \<Rightarrow> int" where
  "rne x = (let f = \<lfloor>x\<rfloor>; d = x - of_int f in
     if d < 1 / 2 then f else if 1 / 2 < d then f + 1 else if even f then f else f + 1)"

text \<open>
  The binary exponent of a positive rational: \<open>2 powi ilog2 q \<le> q < 2 powi (ilog2 q + 1)\<close>.
\<close>

definition ilog2 :: "rat \<Rightarrow> int" where
  "ilog2 q = (if 1 \<le> q then int (floorlog 2 (nat \<lfloor>q\<rfloor>)) - 1
     else - int (floorlog 2 (nat (\<lceil>1 / q\<rceil> - 1))))"

text \<open>
  Rounding of an exact result to a double: 53 significant bits, round to nearest, ties
  to even. The exponent range is not modelled (no overflow to infinity, no subnormal
  numbers); every value the server computes here lies well inside the normal range.
\<close>

definition fl_pos :: "rat \<Rightarrow> rat" where
  "fl_pos q = of_int (rne (q * 2 powi (52 - ilog2 q))) * 2 powi (ilog2 q - 52)"

definition fl :: "rat \<Rightarrow> rat" where
  "fl q = (if q = 0 then 0 else if 0 < q then fl_pos q else - fl_pos (- q))"

text \<open>Division \<^verbatim>\<open>a / b\<close> of two finite numbers.\<close>

definition js_div :: "rat \<Rightarrow> rat \<Rightarrow> jsnum" where
  "js_div a b = (if b = 0 then (if a = 0 then NaN else if 0 < a then PosInf else NegInf)
     else Fin (fl (a / b)))"

text \<open>Multiplication \<^verbatim>\<open>x * c\<close> by a finite, positive constant.\<close>

fun js_mul_pos :: "jsnum \<Rightarrow> rat \<Rightarrow> jsnum" where
  "js_mul_pos (Fin x) c = Fin (fl (x * c))"
| "js_mul_pos PosInf c = PosInf"
| "js_mul_pos NegInf c = NegInf"
| "js_mul_pos NaN c = NaN"

text \<open>\<^verbatim>\<open>Math.round\<close>: the nearest integer, ties towards \<open>+\<infinity>\<close>.\<close>

fun math_round :: "jsnum \<Rightarrow> jsnum" where
  "math_round (Fin x) = Fin (of_int \<lfloor>x + 1 / 2\<rfloor>)"
| "math_round PosInf = PosInf"
| "math_round NegInf = NegInf"
| "math_round NaN = NaN"

subsection \<open>The Job class\<close>

datatype job_status = Running | Completed | Failed

record Job =
  job_id :: string
  job_type :: string
  status :: job_status
  progress :: jsnum
  totalItems :: nat
  completedItems :: nat
  failedItems :: nat
  startTime :: nat
  currentItem :: "string option"
  errors :: "string list"

text \<open>\<^verbatim>\<open>new Job(id, type, totalItems)\<close>, created at clock time \<open>t\<close>.\<close>

definition newJob :: "string \<Rightarrow> string \<Rightarrow> nat \<Rightarrow> nat \<Rightarrow> Job" where
  "newJob i ty n t = \<lparr> job_id = i, job_type = ty, status = Running, progress = Fin 0,
     totalItems = n, completedItems = 0, failedItems = 0, startTime = t,
     currentItem = None, errors = [] \<rparr>"

text \<open>
  \<^verbatim>\<open>updateProgress(completedItems, currentItem = null, error = null)\<close>. The broadcast
  that ends each method is modelled where the job lives in a server state, below.
\<close>

definition updateProgress :: "nat \<Rightarrow> string option \<Rightarrow> string option \<Rightarrow> Job \<Rightarrow> Job" where
  "updateProgress c item err j =
     (let j1 = j\<lparr> completedItems := c, currentItem := item,
                   progress := math_round (js_mul_pos (js_div (of_nat c) (of_nat (totalItems j))) 100) \<rparr>
      in case err of
           None \<Rightarrow> j1
         | Some e \<Rightarrow>
             if e \<noteq> [] then j1\<lparr> failedItems := failedItems j1 + 1, errors := errors j1 @ [e] \<rparr>
             else j1)"

definition complete_job :: "Job \<Rightarrow> Job" where
  "complete_job j = j\<lparr> status := Completed, progress := Fin 100, currentItem := None \<rparr>"

definition fail_job :: "string \<Rightarrow> Job \<Rightarrow> Job" where
  "fail_job e j = j\<lparr> status := Failed, errors := errors j @ [e] \<rparr>"

text \<open>The three methods as operations, and a sequence of them applied to one job.\<close>

datatype job_op = UpdateProgress nat "string option" "string option" | Complete | Fail string

fun apply_op :: "job_op \<Rightarrow> Job \<Rightarrow> Job" where
  "apply_op (UpdateProgress c item err) j = updateProgress c item err j"
| "apply_op Complete j = complete_job j"
| "apply_op (Fail e) j = fail_job e j"

fun apply_ops :: "job_op list \<Rightarrow> Job \<Rightarrow> Job" where
  "apply_ops [] j = j"
| "apply_ops (x # xs) j = apply_ops xs (apply_op x j)"

subsection \<open>Transfer strategy\<close>

text \<open>
  The two ways a file reaches the store: \<^verbatim>\<open>Body: fileContent\<close>, the whole file read into
  memory (buffered), or \<^verbatim>\<open>Body: fileStream\<close>, a read stream (streaming).
\<close>

datatype strategy = Buffered | Streaming

text \<open>\<^verbatim>\<open>const isLargeFile = fileSize > 100 * 1024 * 1024\<close>.\<close>

definition isLargeFile :: "nat \<Rightarrow> bool" where
  "isLargeFile fileSize = (fileSize > 100 * 1024 * 1024)"

text \<open>
  The calls a handler makes to the file system and to the store while it transfers
  files: \<^verbatim>\<open>fs.stat(path)\<close>, \<^verbatim>\<open>fs.createReadStream(path)\<close>, \<^verbatim>\<open>fs.readFile(path)\<close>,
  \<^verbatim>\<open>s3.upload({ Key, Body })\<close> with the kind of body, and \<^verbatim>\<open>fs.remove(path)\<close>.
\<close>

datatype io_op =
    Stat string
  | CreateReadStream string
  | ReadFile string
  | S3Upload string strategy
  | Remove string

subsection \<open>Paths and number formatting\<close>

text \<open>
  The \<^verbatim>\<open>path\<close> module in its POSIX variant. \<^verbatim>\<open>path.basename\<close> drops trailing slashes
  and returns what follows the last remaining slash.
\<close>

definition posix_basename :: "string \<Rightarrow> string" where
  "posix_basename p =
     rev (takeWhile (\<lambda>c. c \<noteq> CHR ''/'') (dropWhile (\<lambda>c. c = CHR ''/'') (rev p)))"

fun splitSlash :: "string \<Rightarrow> string list" where
  "splitSlash [] = [[]]"
| "splitSlash (c # cs) =
     (if c = CHR ''/'' then [] # splitSlash cs
      else (case splitSlash cs of [] \<Rightarrow> [[c]] | s # ss \<Rightarrow> (c # s) # ss))"

fun joinSlash :: "string list \<Rightarrow> string" where
  "joinSlash [] = []"
| "joinSlash [s] = s"
| "joinSlash (s # t # ts) = s @ ''/'' @ joinSlash (t # ts)"

text \<open>
  \<^verbatim>\<open>normalizeString\<close>, segment by segment: empty segments and \<^verbatim>\<open>.\<close> are dropped,
  \<^verbatim>\<open>..\<close> removes the segment before it, or is kept when there is none and the path is
  relative.
\<close>

fun normalizeSegs :: "bool \<Rightarrow> string list \<Rightarrow> string list \<Rightarrow> string list" where
  "normalizeSegs allowAboveRoot [] res = res"
| "normalizeSegs allowAboveRoot (s # ss) res =
     (if s = [] \<or> s = ''.'' then normalizeSegs allowAboveRoot ss res
      else if s = ''..'' then
        (if res \<noteq> [] \<and> last res \<noteq> ''..'' then normalizeSegs allowAboveRoot ss (butlast res)
         else if allowAboveRoot then normalizeSegs allowAboveRoot ss (res @ [''..''])
         else normalizeSegs allowAboveRoot ss res)
      else normalizeSegs allowAboveRoot ss (res @ [s]))"

definition posix_normalize :: "string \<Rightarrow> string" where
  "posix_normalize p =
     (if p = [] then ''.''
      else
        let isAbsolute = (hd p = CHR ''/'');
            trailingSeparator = (last p = CHR ''/'');
            r = joinSlash (normalizeSegs (\<not> isAbsolute) (splitSlash p) [])
        in if r = [] then (if isAbsolute then ''/'' else if trailingSeparator then ''./'' else ''.'')
           else (let r' = (if trailingSeparator then r @ ''/'' else r)
                 in if isAbsolute then ''/'' @ r' else r'))"

text \<open>\<^verbatim>\<open>path.join(a, b)\<close>: the non-empty arguments joined by a slash, then normalised.\<close>

definition posix_join :: "string \<Rightarrow> string \<Rightarrow> string" where
  "posix_join a b =
     (let parts = filter (\<lambda>s. s \<noteq> []) [a, b]
      in if parts = [] then ''.'' else posix_normalize (joinSlash parts))"

text \<open>\<^verbatim>\<open>expandTilde\<close>; \<open>home\<close> is \<^verbatim>\<open>os.homedir()\<close>.\<close>

definition expandTilde :: "string \<Rightarrow> string \<Rightarrow> string" where
  "expandTilde home filePath =
     (if take 2 filePath = ''~/'' then posix_join home (drop 2 filePath) else filePath)"

text \<open>Decimal digits of a non-negative integer, as string conversion prints them.\<close>

definition digitChar :: "nat \<Rightarrow> char" where
  "digitChar d = ''0123456789'' ! d"

fun showNat :: "nat \<Rightarrow> string" where
  "showNat n = (if n < 10 then [digitChar n] else showNat (n div 10) @ [digitChar (n mod 10)])"

declare showNat.simps [simp del]

text \<open>
  A number inside a template string. The only numbers formatted by the server are
  results of \<^verbatim>\<open>Math.round\<close> on non-negative values and \<^verbatim>\<open>Date.now()\<close>.
\<close>

fun showNum :: "jsnum \<Rightarrow> string" where
  "showNum (Fin q) = showNat (nat \<lfloor>q\<rfloor>)"
| "showNum PosInf = ''Infinity''"
| "showNum NegInf = ''-Infinity''"
| "showNum NaN = ''NaN''"

subsection \<open>Destination keys\<close>

text \<open>
  \<^verbatim>\<open>const baseFolderName = path.basename(expandTilde(config.folderPath))\<close> and the key
  of \<^verbatim>\<open>/api/upload-folder\<close>:
  \<^verbatim>\<open>preserveStructure ? `${baseFolderName}/${relativePath.replace(/\\/g, '/')}`
                     : `${baseFolderName}/${Date.now()}_${filename}`\<close>.
  \<open>CHR 0x5C\<close> is the backslash.
\<close>

definition baseFolderName :: "string \<Rightarrow> string \<Rightarrow> string" where
  "baseFolderName home folderPath = posix_basename (expandTilde home folderPath)"

definition backslashToSlash :: "string \<Rightarrow> string" where
  "backslashToSlash s = map (\<lambda>c. if c = CHR 0x5C then CHR ''/'' else c) s"

definition s3KeyFor :: "bool \<Rightarrow> string \<Rightarrow> string \<Rightarrow> nat \<Rightarrow> string \<Rightarrow> string" where
  "s3KeyFor preserveStructure base relPath now filename =
     (if preserveStructure then base @ ''/'' @ backslashToSlash relPath
      else base @ ''/'' @ showNat now @ ''_'' @ filename)"

subsection \<open>The inventory scanner\<close>

text \<open>A file as the scanner describes it and as the client sends it back.\<close>

record Photo =
  photo_id :: nat
  photo_name :: string
  photo_size :: nat
  photo_path :: string
  photo_relativePath :: string
  photo_lastModified :: nat

text \<open>
  Assignment \<^verbatim>\<open>obj[key] = value\<close> on a plain object, seen through its own enumerable
  properties (what \<^verbatim>\<open>JSON.stringify\<close> and \<^verbatim>\<open>Object.entries\<close> show): an existing key
  keeps its place, a new one is appended, and the key \<^verbatim>\<open>__proto__\<close> creates no property
  (the assignment reaches the prototype setter instead). The reordering of
  integer-like keys is not modelled.
\<close>

definition objSet :: "string \<Rightarrow> 'a \<Rightarrow> (string \<times> 'a) list \<Rightarrow> (string \<times> 'a) list" where
  "objSet k v obj = (if k = ''__proto__'' then obj else AList.update k v obj)"

definition getSupportedExtensions :: "string list" where
  "getSupportedExtensions =
     [''.jpg'', ''.jpeg'', ''.png'', ''.gif'', ''.bmp'', ''.tiff'', ''.tif'', ''.webp'',
      ''.heic'', ''.heif'', ''.cr2'', ''.cr3'', ''.crw'', ''.nef'', ''.nrw'', ''.arw'',
      ''.srf'', ''.sr2'', ''.dng'', ''.raf'', ''.orf'', ''.rw2'', ''.raw'', ''.pef'',
      ''.ptx'', ''.dng'', ''.rwl'', ''.iiq'', ''.3fr'', ''.mef'', ''.dcr'', ''.kdc'',
      ''.mrw'', ''.srw'', ''.x3f'', ''.erf'', ''.mp4'', ''.mov'', ''.avi'', ''.mkv'',
      ''.wmv'', ''.flv'', ''.webm'', ''.m4v'', ''.3gp'', ''.mts'', ''.m2ts'', ''.mpg'',
      ''.mpeg'', ''.m2v'', ''.asf'', ''.rm'', ''.rmvb'', ''.vob'', ''.ts'', ''.f4v'']"

text \<open>\<^verbatim>\<open>toLowerCase\<close> on the ASCII letters; other characters are left as they are.\<close>

definition toLowerChar :: "char \<Rightarrow> char" where
  "toLowerChar c =
     (case map_of (zip ''ABCDEFGHIJKLMNOPQRSTUVWXYZ'' ''abcdefghijklmnopqrstuvwxyz'') c of
        None \<Rightarrow> c | Some l \<Rightarrow> l)"

text \<open>
  \<^verbatim>\<open>path.extname\<close>: from the last dot of the base name on; empty when there is no dot,
  when the only dot is the first character, and for the name \<^verbatim>\<open>..\<close>.
\<close>

definition posix_extname :: "string \<Rightarrow> string" where
  "posix_extname p =
     (let b = posix_basename p;
          tail = takeWhile (\<lambda>c. c \<noteq> CHR ''.'') (rev b)
      in if CHR ''.'' \<notin> set b \<or> length tail + 1 = length b \<or> b = ''..'' then []
         else CHR ''.'' # rev tail)"

definition isImageFile :: "string \<Rightarrow> bool" where
  "isImageFile filename = (map toLowerChar (posix_extname filename) \<in> set getSupportedExtensions)"

text \<open>
  What the file system holds at a path, as \<^verbatim>\<open>fs.stat\<close> and \<^verbatim>\<open>fs.readdir\<close> report it: a
  regular file (size, modification time), a directory with its entries in listing
  order, a directory whose listing fails, something that is neither file nor
  directory, or an entry whose \<^verbatim>\<open>stat\<close> fails.
\<close>

datatype fsnode =
    FsFile nat nat
  | FsDir "(string \<times> fsnode) list"
  | FsUnreadableDir string
  | FsOther
  | FsStatError string

datatype FolderData =
  FolderData (fd_name: string) (fd_path: string) (fd_photos: "Photo list")
    (fd_subfolders: "(string \<times> FolderData) list") (fd_photoCount: nat) (fd_totalSize: nat)

text \<open>The identifiers handed out by \<^verbatim>\<open>uuidv4()\<close> and the counter \<^verbatim>\<open>totalPhotos\<close>.\<close>

record scan_state =
  next_id :: nat
  totalPhotos :: nat

definition newFolder :: "string \<Rightarrow> string \<Rightarrow> FolderData" where
  "newFolder dirPath relativePath = FolderData (posix_basename dirPath) relativePath [] [] 0 0"

definition addSubfolder :: "string \<Rightarrow> FolderData \<Rightarrow> FolderData \<Rightarrow> FolderData" where
  "addSubfolder item subfolder folderData =
     FolderData (fd_name folderData) (fd_path folderData) (fd_photos folderData)
       (objSet item subfolder (fd_subfolders folderData))
       (fd_photoCount folderData + fd_photoCount subfolder)
       (fd_totalSize folderData + fd_totalSize subfolder)"

definition addPhoto :: "Photo \<Rightarrow> FolderData \<Rightarrow> FolderData" where
  "addPhoto photo folderData =
     FolderData (fd_name folderData) (fd_path folderData) (fd_photos folderData @ [photo])
       (fd_subfolders folderData) (fd_photoCount folderData + 1)
       (fd_totalSize folderData + photo_size photo)"

text \<open>
  The loop \<^verbatim>\<open>for (const item of items)\<close> of \<^verbatim>\<open>scanDirectory\<close>, with the recursive call
  for a subdirectory unfolded into the loop of that subdirectory. Any failing
  \<^verbatim>\<open>stat\<close> or \<^verbatim>\<open>readdir\<close> ends the whole scan.
\<close>

fun scanItems ::
  "string \<Rightarrow> string \<Rightarrow> (string \<times> fsnode) list \<Rightarrow> FolderData \<Rightarrow> scan_state
     \<Rightarrow> string + FolderData \<times> scan_state" where
  "scanItems dirPath relativePath [] folderData st = Inr (folderData, st)"
| "scanItems dirPath relativePath ((item, FsStatError e) # rest) folderData st = Inl e"
| "scanItems dirPath relativePath ((item, FsUnreadableDir e) # rest) folderData st = Inl e"
| "scanItems dirPath relativePath ((item, FsDir children) # rest) folderData st =
     (case scanItems (posix_join dirPath item) (posix_join relativePath item) children
             (newFolder (posix_join dirPath item) (posix_join relativePath item)) st of
        Inl e \<Rightarrow> Inl e
      | Inr (subfolder, st') \<Rightarrow>
          scanItems dirPath relativePath rest (addSubfolder item subfolder folderData) st')"
| "scanItems dirPath relativePath ((item, FsFile fileSize mtime) # rest) folderData st =
     (if isImageFile item
      then scanItems dirPath relativePath rest
             (addPhoto \<lparr> photo_id = next_id st, photo_name = item, photo_size = fileSize,
                         photo_path = posix_join dirPath item,
                         photo_relativePath = posix_join relativePath item,
                         photo_lastModified = mtime \<rparr> folderData)
             (st\<lparr> next_id := next_id st + 1, totalPhotos := totalPhotos st + 1 \<rparr>)
      else scanItems dirPath relativePath rest folderData st)"
| "scanItems dirPath relativePath ((item, FsOther) # rest) folderData st =
     scanItems dirPath relativePath rest folderData st"

definition scanDirectory ::
  "string \<Rightarrow> string \<Rightarrow> (string \<times> fsnode) list \<Rightarrow> scan_state \<Rightarrow> string + FolderData \<times> scan_state" where
  "scanDirectory dirPath relativePath items st =
     scanItems dirPath relativePath items (newFolder dirPath relativePath) st"

text \<open>
  The invariant of the claim, at a node and at every node below it: the aggregated
  count is the number of own files plus the children's aggregated counts, and
  likewise for the sizes.
\<close>

fun aggregatesOK :: "FolderData \<Rightarrow> bool" where
  "aggregatesOK (FolderData n p photos subs c s) =
     (c = length photos + sum_list (map (\<lambda>x. fd_photoCount (snd x)) subs)
      \<and> s = sum_list (map photo_size photos) + sum_list (map (\<lambda>x. fd_totalSize (snd x)) subs)
      \<and> (\<forall>x \<in> set subs. aggregatesOK (snd x)))"

text \<open>
  A directory listing as a file system gives it: no name twice; and, for the lemma
  below, no directory called \<^verbatim>\<open>__proto__\<close>, here and in every subdirectory.
\<close>

fun plainNames :: "(string \<times> fsnode) list \<Rightarrow> bool" where
  "plainNames [] = True"
| "plainNames ((item, FsDir children) # rest) =
     (item \<noteq> ''__proto__'' \<and> item \<notin> fst ` set rest \<and> plainNames children \<and> plainNames rest)"
| "plainNames ((item, node) # rest) = (item \<notin> fst ` set rest \<and> plainNames rest)"

subsection \<open>Server state, messages and the upload handler\<close>

record config =
  cfg_folderPath :: string
  cfg_bucketName :: string

text \<open>An entry of \<^verbatim>\<open>results\<close>: \<^verbatim>\<open>{ success, path, s3Key, relativePath }\<close> or
  \<^verbatim>\<open>{ success, path, error }\<close>.\<close>

record outcome =
  o_success :: bool
  o_path :: string
  o_s3Key :: "string option"
  o_relativePath :: "string option"
  o_error :: "string option"

text \<open>An entry of \<^verbatim>\<open>syncStatus\<close>: \<^verbatim>\<open>{ ...file, inS3, s3Key }\<close>.\<close>

record sync_entry =
  se_file :: Photo
  se_inS3 :: bool
  se_s3Key :: string

text \<open>
  The messages broadcast to the WebSocket clients: \<^verbatim>\<open>job_update\<close>,
  \<^verbatim>\<open>file_upload_success\<close> (job id, relative path, key, folder path, file id),
  \<^verbatim>\<open>upload_result\<close> (job id, results, folder path, file id) and
  \<^verbatim>\<open>sync_status_result\<close> (job id, sync status, object count).
\<close>

datatype event =
    JobUpdate Job
  | FileUploadSuccess string string string "string option" "string option"
  | UploadResult string "outcome list" "string option" "string option"
  | SyncStatusResult string "(string \<times> sync_entry) list" nat

text \<open>
  The server: the \<^verbatim>\<open>jobs\<close> map, the messages broadcast so far, and the pending
  \<^verbatim>\<open>setTimeout\<close> callbacks \<^verbatim>\<open>() => jobs.delete(jobId)\<close> with the time they are due
  (milliseconds).
\<close>

record server =
  jobs :: "string \<rightharpoonup> Job"
  sent :: "event list"
  timers :: "(nat \<times> string) list"

text \<open>A due timer deletes its job; the others stay pending.\<close>

definition fireTimers :: "nat \<Rightarrow> server \<Rightarrow> server" where
  "fireTimers t srv =
     srv\<lparr> jobs := (\<lambda>k. if k \<in> set (map snd (filter (\<lambda>x. fst x \<le> t) (timers srv))) then None
                        else jobs srv k),
          timers := filter (\<lambda>x. \<not> fst x \<le> t) (timers srv) \<rparr>"

text \<open>
  What a handler holds while it runs: its job object, the \<^verbatim>\<open>results\<close> array, the
  messages it has broadcast, and the file and store calls it has made, in order. A
  handler run is taken as one step of the server; other handlers and timers do not
  interleave with it.
\<close>

record hstate =
  h_job :: Job
  h_results :: "outcome list"
  h_sent :: "event list"
  h_ops :: "io_op list"

text \<open>A method of \<^verbatim>\<open>Job\<close> followed by its \<^verbatim>\<open>broadcastUpdate()\<close>.\<close>

definition jobCall :: "(Job \<Rightarrow> Job) \<Rightarrow> hstate \<Rightarrow> hstate" where
  "jobCall f h = (let j = f (h_job h) in h\<lparr> h_job := j, h_sent := h_sent h @ [JobUpdate j] \<rparr>)"

text \<open>File and store calls, appended to the record of calls.\<close>

definition doOps :: "io_op list \<Rightarrow> hstate \<Rightarrow> hstate" where
  "doOps xs h = h\<lparr> h_ops := h_ops h @ xs \<rparr>"

text \<open>
  What the file system and the object store do for one file of a batch:
  \<^verbatim>\<open>fs.stat\<close> (an error message or the size), \<^verbatim>\<open>path.relative(root, photoPath)\<close>,
  \<^verbatim>\<open>Date.now()\<close>, the \<^verbatim>\<open>httpUploadProgress\<close> events \<open>(loaded, total)\<close> of a streamed
  upload, and the failures (an error message) of \<^verbatim>\<open>fs.readFile\<close>, \<^verbatim>\<open>s3.upload\<close> and
  \<^verbatim>\<open>fs.remove\<close>. An error message is \<^verbatim>\<open>error.message\<close>; the empty string also stands
  for a missing message, which is falsy as well.
\<close>

record file_world =
  w_stat :: "string + nat"
  w_relative :: string
  w_now :: nat
  w_progress :: "(nat \<times> nat) list"
  w_read :: "string option"
  w_upload :: "string option"
  w_remove :: "string option"

record upload_request =
  photoPaths :: "string list"
  req_config :: "config option"
  deleteAfterUpload :: bool
  preserveStructure :: bool
  req_folderPath :: "string option"
  req_fileId :: "string option"
  req_jobId :: "string option"

text \<open>The label \<^verbatim>\<open>`${filename} (${progressPercent}%)`\<close> of a progress event.\<close>

definition progressLabel :: "string \<Rightarrow> nat \<times> nat \<Rightarrow> string" where
  "progressLabel filename p =
     filename @ '' ('' @ showNum (math_round (js_mul_pos (js_div (of_nat (fst p)) (of_nat (snd p))) 100)) @ ''%)''"

text \<open>The \<^verbatim>\<open>catch\<close> block of one file.\<close>

definition fileFailed :: "nat \<Rightarrow> string \<Rightarrow> string \<Rightarrow> string \<Rightarrow> hstate \<Rightarrow> hstate" where
  "fileFailed i photoPath filename e h =
     jobCall (updateProgress (i + 1) (Some filename) (Some e))
       (h\<lparr> h_results := h_results h @
            [\<lparr> o_success = False, o_path = photoPath, o_s3Key = None, o_relativePath = None,
               o_error = Some e \<rparr>] \<rparr>)"

text \<open>
  The block \<^verbatim>\<open>if (isLargeFile) { ... } else { ... }\<close>, which the three upload handlers
  share: a large file is opened as a stream and the stream is uploaded; any other file
  is read into memory and, if that succeeds, the content is uploaded. The result is
  the calls made and the error message of the first failing call, if any.
\<close>

definition transferBlock :: "string \<Rightarrow> string \<Rightarrow> nat \<Rightarrow> file_world \<Rightarrow> io_op list \<times> string option" where
  "transferBlock photoPath key fileSize w =
     (if isLargeFile fileSize
      then ([CreateReadStream photoPath, S3Upload key Streaming], w_upload w)
      else (case w_read w of
              Some e \<Rightarrow> ([ReadFile photoPath], Some e)
            | None \<Rightarrow> ([ReadFile photoPath, S3Upload key Buffered], w_upload w)))"

text \<open>
  One iteration of the loop over \<^verbatim>\<open>photoPaths\<close>. In \<^verbatim>\<open>/api/upload-folder\<close> the streamed
  upload also reports its progress to the job.
\<close>

definition uploadFile ::
  "upload_request \<Rightarrow> string \<Rightarrow> string \<Rightarrow> nat \<Rightarrow> string \<Rightarrow> file_world \<Rightarrow> hstate \<Rightarrow> hstate" where
  "uploadFile req jobId base i photoPath w h0 =
     (let filename = posix_basename photoPath;
          h = doOps [Stat photoPath] (jobCall (updateProgress i (Some filename) None) h0)
      in case w_stat w of
           Inl e \<Rightarrow> fileFailed i photoPath filename e h
         | Inr fileSize \<Rightarrow>
             (let relPath = w_relative w;
                  key = s3KeyFor (preserveStructure req) base relPath (w_now w) filename;
                  hp = (if isLargeFile fileSize
                        then fold (\<lambda>p. jobCall (updateProgress i (Some (progressLabel filename p)) None))
                               (w_progress w) h
                        else h);
                  h1 = doOps (fst (transferBlock photoPath key fileSize w)) hp;
                  uploadResult = snd (transferBlock photoPath key fileSize w)
              in case uploadResult of
                   Some e \<Rightarrow> fileFailed i photoPath filename e h1
                 | None \<Rightarrow>
                     (let h2 = (if deleteAfterUpload req then doOps [Remove photoPath] h1 else h1)
                      in case (if deleteAfterUpload req then w_remove w else None) of
                           Some e \<Rightarrow> fileFailed i photoPath filename e h2
                         | None \<Rightarrow>
                             jobCall (updateProgress (i + 1) (Some filename) None)
                               (h2\<lparr> h_results := h_results h2 @
                                      [\<lparr> o_success = True, o_path = photoPath, o_s3Key = Some key,
                                         o_relativePath = Some relPath, o_error = None \<rparr>],
                                    h_sent := h_sent h2 @
                                      [FileUploadSuccess jobId relPath key (req_folderPath req)
                                         (req_fileId req)] \<rparr>))))"

fun uploadLoop ::
  "upload_request \<Rightarrow> string \<Rightarrow> string \<Rightarrow> (nat \<Rightarrow> file_world) \<Rightarrow> nat \<Rightarrow> string list \<Rightarrow> hstate \<Rightarrow> hstate" where
  "uploadLoop req jobId base world i [] h = h"
| "uploadLoop req jobId base world i (p # ps) h =
     uploadLoop req jobId base world (i + 1) ps (uploadFile req jobId base i p (world i) h)"

text \<open>
  For stating what the loop produces. First, the exception raised inside the
  \<^verbatim>\<open>try\<close> block for one file, if any: from
  \<^verbatim>\<open>fs.stat\<close>, from \<^verbatim>\<open>fs.readFile\<close> (buffered path only), from the upload, or from
  \<^verbatim>\<open>fs.remove\<close> when deletion was requested.
\<close>

definition transferError :: "bool \<Rightarrow> file_world \<Rightarrow> string option" where
  "transferError del w =
     (case w_stat w of
        Inl e \<Rightarrow> Some e
      | Inr fileSize \<Rightarrow>
          (case (if isLargeFile fileSize then w_upload w
                 else (case w_read w of Some e \<Rightarrow> Some e | None \<Rightarrow> w_upload w)) of
             Some e \<Rightarrow> Some e
           | None \<Rightarrow> (if del then w_remove w else None)))"

text \<open>
  Then the entry one iteration appends to
  \<^verbatim>\<open>results\<close>, and the messages it adds to the job's \<^verbatim>\<open>errors\<close> (the \<^verbatim>\<open>if (error)\<close> of
  \<^verbatim>\<open>updateProgress\<close> skips an empty message).
\<close>

definition outcomeOf :: "upload_request \<Rightarrow> string \<Rightarrow> string \<Rightarrow> file_world \<Rightarrow> outcome" where
  "outcomeOf req base photoPath w =
     (case transferError (deleteAfterUpload req) w of
        Some e \<Rightarrow> \<lparr> o_success = False, o_path = photoPath, o_s3Key = None, o_relativePath = None,
                     o_error = Some e \<rparr>
      | None \<Rightarrow> \<lparr> o_success = True, o_path = photoPath,
                   o_s3Key = Some (s3KeyFor (preserveStructure req) base (w_relative w) (w_now w)
                                     (posix_basename photoPath)),
                   o_relativePath = Some (w_relative w), o_error = None \<rparr>)"

definition recordedError :: "upload_request \<Rightarrow> file_world \<Rightarrow> string list" where
  "recordedError req w =
     (case transferError (deleteAfterUpload req) w of
        Some e \<Rightarrow> if e \<noteq> [] then [e] else []
      | None \<Rightarrow> [])"

text \<open>And the file and store calls of one iteration.\<close>

definition fileOps :: "upload_request \<Rightarrow> string \<Rightarrow> string \<Rightarrow> file_world \<Rightarrow> io_op list" where
  "fileOps req base photoPath w =
     Stat photoPath #
     (case w_stat w of
        Inl e \<Rightarrow> []
      | Inr fileSize \<Rightarrow>
          (let key = s3KeyFor (preserveStructure req) base (w_relative w) (w_now w)
                       (posix_basename photoPath);
               t = transferBlock photoPath key fileSize w
           in fst t @ (if snd t = None \<and> deleteAfterUpload req then [Remove photoPath] else [])))"

text \<open>
  The \<^verbatim>\<open>catch\<close> block of the two tracked handlers:
  \<^verbatim>\<open>const jobId = req.body.jobId; if (jobId && jobs.has(jobId)) jobs.get(jobId).fail(error.message)\<close>.
  The id is read from the request body; the \<^verbatim>\<open>jobId\<close> created in the \<^verbatim>\<open>try\<close> block is
  not in scope here. No timer is set.
\<close>

definition catchBlock :: "string option \<Rightarrow> string \<Rightarrow> server \<Rightarrow> server" where
  "catchBlock bodyJobId msg srv =
     (case bodyJobId of
        None \<Rightarrow> srv
      | Some jid \<Rightarrow>
          if jid \<noteq> [] then
            (case jobs srv jid of
               None \<Rightarrow> srv
             | Some j \<Rightarrow>
                 (let j' = fail_job msg j
                  in srv\<lparr> jobs := (jobs srv)(jid \<mapsto> j'), sent := sent srv @ [JobUpdate j'] \<rparr>))
          else srv)"

text \<open>
  The HTTP response of a handler. A tracked handler answers \<^verbatim>\<open>{ jobId, message }\<close>
  before it starts its work; the \<^verbatim>\<open>res.status(500).json(...)\<close> that ends its \<^verbatim>\<open>catch\<close>
  block comes after that answer and cannot replace it: it throws (the headers are
  already sent), after the registry has been dealt with, and that exception is left
  unhandled. What the process does with an unhandled rejection is outside this
  development; the server state described here is the one in which it is raised.
\<close>

datatype response =
    Accepted string
  | ScanResponse FolderData nat
  | SyncStatusResponse "(string \<times> sync_entry) list" nat
  | ErrorResponse nat string

text \<open>
  \<^verbatim>\<open>app.post('/api/scan-photos')\<close>; \<open>rootNode\<close> is what the file system holds at the expanded
  folder path, if anything (\<^verbatim>\<open>fs.existsSync\<close> is false when there is nothing or \<^verbatim>\<open>stat\<close>
  fails; \<^verbatim>\<open>readdir\<close> fails on anything but a readable directory). The answer carries
  the tree and \<^verbatim>\<open>totalPhotos\<close>.
\<close>

definition scanPhotos :: "string \<Rightarrow> nat \<Rightarrow> string \<Rightarrow> fsnode option \<Rightarrow> response" where
  "scanPhotos home firstId folderPath rootNode =
     (case rootNode of
        None \<Rightarrow> ErrorResponse 400 ''Folder path does not exist''
      | Some (FsStatError e) \<Rightarrow> ErrorResponse 400 ''Folder path does not exist''
      | Some (FsDir items) \<Rightarrow>
          (case scanDirectory (expandTilde home folderPath) [] items
                  \<lparr> next_id = firstId, totalPhotos = 0 \<rparr> of
             Inl e \<Rightarrow> ErrorResponse 500 ''Failed to scan media files''
           | Inr (rootFolder, st) \<Rightarrow> ScanResponse rootFolder (totalPhotos st))
      | Some other \<Rightarrow> ErrorResponse 500 ''Failed to scan media files'')"

definition missingConfig :: string where
  "missingConfig = ''Cannot read properties of undefined (reading 'awsAccessKey')''"

text \<open>
  \<^verbatim>\<open>app.post('/api/upload-folder')\<close>. \<open>home\<close> is the home directory, \<open>newId\<close> the
  result of \<^verbatim>\<open>uuidv4()\<close>, \<open>t0\<close> the time of the request and \<open>t1\<close> the time at which the
  loop has finished. A request without \<^verbatim>\<open>config\<close> raises a TypeError at
  \<^verbatim>\<open>config.awsAccessKey\<close>, after the job has been registered and the response sent.
  The handler is given with the file and store calls it has made, in order; the
  response and the server state it leaves are the first component.
\<close>

definition uploadFolderTrace ::
  "string \<Rightarrow> string \<Rightarrow> nat \<Rightarrow> nat \<Rightarrow> upload_request \<Rightarrow> (nat \<Rightarrow> file_world) \<Rightarrow> server
     \<Rightarrow> (response \<times> server) \<times> io_op list" where
  "uploadFolderTrace home newId t0 t1 req world srv =
     (let job = newJob newId ''upload'' (length (photoPaths req)) t0;
          srv1 = srv\<lparr> jobs := (jobs srv)(newId \<mapsto> job) \<rparr>
      in case req_config req of
           None \<Rightarrow> ((Accepted newId, catchBlock (req_jobId req) missingConfig srv1), [])
         | Some cfg \<Rightarrow>
             (let base = baseFolderName home (cfg_folderPath cfg);
                  h = uploadLoop req newId base world 0 (photoPaths req)
                        \<lparr> h_job = job, h_results = [], h_sent = [], h_ops = [] \<rparr>;
                  h' = h\<lparr> h_sent := h_sent h @
                         [UploadResult newId (h_results h)
                            (if truthy (req_folderPath req) then req_folderPath req else None)
                            (if truthy (req_fileId req) then req_fileId req else None)] \<rparr>;
                  hc = jobCall complete_job h'
              in ((Accepted newId,
                   srv1\<lparr> jobs := (jobs srv1)(newId \<mapsto> h_job hc),
                         sent := sent srv1 @ h_sent hc,
                         timers := timers srv1 @ [(t1 + 30000, newId)] \<rparr>),
                  h_ops hc)))"

definition uploadFolder ::
  "string \<Rightarrow> string \<Rightarrow> nat \<Rightarrow> nat \<Rightarrow> upload_request \<Rightarrow> (nat \<Rightarrow> file_world) \<Rightarrow> server
     \<Rightarrow> response \<times> server" where
  "uploadFolder home newId t0 t1 req world srv = fst (uploadFolderTrace home newId t0 t1 req world srv)"

subsection \<open>Reconciliation against the object store\<close>

text \<open>
  A page of \<^verbatim>\<open>listObjectsV2\<close>: the keys of \<^verbatim>\<open>Contents\<close> (which may be absent) and
  \<^verbatim>\<open>NextContinuationToken\<close>. The store answers a prefix and a continuation token with
  an error message or a page.
\<close>

record page =
  pg_contents :: "string list option"
  pg_next :: "string option"

type_synonym store = "string \<Rightarrow> string option \<Rightarrow> string + page"

text \<open>\<^verbatim>\<open>Set.prototype.add\<close>, keeping insertion order.\<close>

definition setAdd :: "string \<Rightarrow> string list \<Rightarrow> string list" where
  "setAdd x xs = (if x \<in> set xs then xs else xs @ [x])"

text \<open>
  \<^verbatim>\<open>obj.Key.replace(new RegExp(`^${baseFolderName}/`), '')\<close>. The folder name is spliced
  into the pattern unescaped. When it holds no regular-expression metacharacter the
  pattern matches exactly the prefix \<open>base/\<close>. Otherwise the outcome is that of the
  regular-expression engine, which is not interpreted here: \<open>rx base\<close> is \<open>None\<close> when the
  constructor throws a SyntaxError and the replacement function otherwise.
\<close>

definition regexMeta :: "char list" where
  "regexMeta = CHR 0x5C # ''^$.|?*+()[]{}''"

definition stripKey :: "(string \<Rightarrow> (string \<Rightarrow> string) option) \<Rightarrow> string \<Rightarrow> string \<Rightarrow> string option" where
  "stripKey rx base key =
     (if list_all (\<lambda>c. c \<notin> set regexMeta) base
      then Some (if prefix (base @ ''/'') key then drop (length base + 1) key else key)
      else map_option (\<lambda>g. g key) (rx base))"

text \<open>The \<^verbatim>\<open>forEach\<close> over the keys of one page.\<close>

fun addKeys ::
  "(string \<Rightarrow> (string \<Rightarrow> string) option) \<Rightarrow> string \<Rightarrow> string list \<Rightarrow> string list \<Rightarrow> string + string list" where
  "addKeys rx base [] acc = Inr acc"
| "addKeys rx base (k # ks) acc =
     (case stripKey rx base k of
        None \<Rightarrow> Inl ''Invalid regular expression''
      | Some r \<Rightarrow> addKeys rx base ks (setAdd r acc))"

definition pageKeys :: "page \<Rightarrow> string list" where
  "pageKeys pg = (case pg_contents pg of None \<Rightarrow> [] | Some ks \<Rightarrow> ks)"

text \<open>
  The \<^verbatim>\<open>do { ... } while (continuationToken)\<close> loop. It ends when a page carries no
  (or an empty) token, or when a call throws; against a store that always hands out
  another token it does not return, which is the value \<open>None\<close>.
\<close>

partial_function (option) listAll ::
  "store \<Rightarrow> (string \<Rightarrow> (string \<Rightarrow> string) option) \<Rightarrow> string \<Rightarrow> string option \<Rightarrow> string list
     \<Rightarrow> (string + string list) option" where
  "listAll s3 rx base token acc =
     (case s3 (base @ ''/'') token of
        Inl e \<Rightarrow> Some (Inl e)
      | Inr pg \<Rightarrow>
          (case addKeys rx base (pageKeys pg) acc of
             Inl e \<Rightarrow> Some (Inl e)
           | Inr acc' \<Rightarrow>
               if truthy (pg_next pg) then listAll s3 rx base (pg_next pg) acc'
               else Some (Inr acc')))"

text \<open>
  For stating what a listing returns: the replacement function in force for a folder
  name (if the pattern compiles); what a pattern \<^verbatim>\<open>^name/\<close> without alternation does
  (it leaves the key alone or removes a prefix that ends in the slash); a store whose
  listing under a prefix, from a token on, is a given finite chain of pages; and all
  the keys of those pages.
\<close>

definition stripFun :: "(string \<Rightarrow> (string \<Rightarrow> string) option) \<Rightarrow> string \<Rightarrow> (string \<Rightarrow> string) option" where
  "stripFun rx base =
     (if list_all (\<lambda>c. c \<notin> set regexMeta) base
      then Some (\<lambda>key. if prefix (base @ ''/'') key then drop (length base + 1) key else key)
      else rx base)"

definition stripsPrefix :: "(string \<Rightarrow> string) \<Rightarrow> bool" where
  "stripsPrefix g =
     (\<forall>key. g key = key \<or> (\<exists>m. key = m @ g key \<and> m \<noteq> [] \<and> last m = CHR ''/''))"

fun servesPages :: "store \<Rightarrow> string \<Rightarrow> string option \<Rightarrow> page list \<Rightarrow> bool" where
  "servesPages s3 pre token [] = False"
| "servesPages s3 pre token [pg] = (s3 pre token = Inr pg \<and> \<not> truthy (pg_next pg))"
| "servesPages s3 pre token (pg # pg' # pgs) =
     (s3 pre token = Inr pg \<and> truthy (pg_next pg) \<and> servesPages s3 pre (pg_next pg) (pg' # pgs))"

definition remoteKeys :: "page list \<Rightarrow> string set" where
  "remoteKeys pages = (\<Union>pg \<in> set pages. set (pageKeys pg))"

definition syncEntry :: "string \<Rightarrow> string list \<Rightarrow> Photo \<Rightarrow> sync_entry" where
  "syncEntry base s3Objects file =
     \<lparr> se_file = file, se_inS3 = (photo_relativePath file \<in> set s3Objects),
       se_s3Key = base @ ''/'' @ photo_relativePath file \<rparr>"

record sync_request =
  sreq_config :: "config option"
  localFiles :: "Photo list"
  sreq_jobId :: "string option"

text \<open>The comparison loop of \<^verbatim>\<open>/api/check-sync-status-simple\<close>.\<close>

fun compareSimple :: "string \<Rightarrow> string list \<Rightarrow> Photo list \<Rightarrow> (string \<times> sync_entry) list \<Rightarrow> (string \<times> sync_entry) list" where
  "compareSimple base s3Objects [] syncStatus = syncStatus"
| "compareSimple base s3Objects (file # files) syncStatus =
     compareSimple base s3Objects files
       (objSet (photo_relativePath file) (syncEntry base s3Objects file) syncStatus)"

definition checkSyncStatusSimple ::
  "string \<Rightarrow> store \<Rightarrow> (string \<Rightarrow> (string \<Rightarrow> string) option) \<Rightarrow> sync_request \<Rightarrow> response option" where
  "checkSyncStatusSimple home s3 rx req =
     (case sreq_config req of
        None \<Rightarrow> Some (ErrorResponse 500 ''Failed to check sync status'')
      | Some cfg \<Rightarrow>
          (let base = baseFolderName home (cfg_folderPath cfg)
           in case listAll s3 rx base None [] of
                None \<Rightarrow> None
              | Some (Inl e) \<Rightarrow> Some (ErrorResponse 500 ''Failed to check sync status'')
              | Some (Inr s3Objects) \<Rightarrow>
                  Some (SyncStatusResponse (compareSimple base s3Objects (localFiles req) [])
                          (length s3Objects))))"

text \<open>
  The comparison loop of \<^verbatim>\<open>/api/check-sync-status\<close>, which also reports progress. The
  pause after every tenth file changes no state.
\<close>

fun compareTracked ::
  "string \<Rightarrow> string list \<Rightarrow> nat \<Rightarrow> Photo list \<Rightarrow> (string \<times> sync_entry) list \<times> hstate
     \<Rightarrow> (string \<times> sync_entry) list \<times> hstate" where
  "compareTracked base s3Objects i [] st = st"
| "compareTracked base s3Objects i (file # files) (syncStatus, h) =
     compareTracked base s3Objects (i + 1) files
       (objSet (photo_relativePath file) (syncEntry base s3Objects file) syncStatus,
        jobCall (updateProgress (i + 1) (Some (photo_name file)) None) h)"

definition checkSyncStatus ::
  "string \<Rightarrow> string \<Rightarrow> nat \<Rightarrow> nat \<Rightarrow> store \<Rightarrow> (string \<Rightarrow> (string \<Rightarrow> string) option) \<Rightarrow> sync_request
     \<Rightarrow> server \<Rightarrow> (response \<times> server) option" where
  "checkSyncStatus home newId t0 t1 s3 rx req srv =
     (let job = newJob newId ''sync_check'' (length (localFiles req)) t0;
          srv1 = srv\<lparr> jobs := (jobs srv)(newId \<mapsto> job) \<rparr>
      in case sreq_config req of
           None \<Rightarrow> Some (Accepted newId, catchBlock (sreq_jobId req) missingConfig srv1)
         | Some cfg \<Rightarrow>
             (let base = baseFolderName home (cfg_folderPath cfg)
              in case listAll s3 rx base None [] of
                   None \<Rightarrow> None
                 | Some (Inl e) \<Rightarrow> Some (Accepted newId, catchBlock (sreq_jobId req) e srv1)
                 | Some (Inr s3Objects) \<Rightarrow>
                     (let (syncStatus, h) =
                            compareTracked base s3Objects 0 (localFiles req)
                              ([], \<lparr> h_job = job, h_results = [], h_sent = [], h_ops = [] \<rparr>);
                          h' = h\<lparr> h_sent := h_sent h @
                                 [SyncStatusResult newId syncStatus (length s3Objects)] \<rparr>;
                          hc = jobCall complete_job h'
                      in Some (Accepted newId,
                               srv1\<lparr> jobs := (jobs srv1)(newId \<mapsto> h_job hc),
                                     sent := sent srv1 @ h_sent hc,
                                     timers := timers srv1 @ [(t1 + 30000, newId)] \<rparr>))))"

subsection \<open>A small store and request, used in examples\<close>

definition examplePages :: "page list" where
  "examplePages =
     [\<lparr> pg_contents = Some [''photos/a.jpg''], pg_next = Some ''t1'' \<rparr>,
      \<lparr> pg_contents = Some [''photos/trip/b.jpg''], pg_next = Some ''t2'' \<rparr>,
      \<lparr> pg_contents = Some [''photos/1700000000123_c.jpg''], pg_next = None \<rparr>]"

definition exampleStore :: store where
  "exampleStore pre token =
     (if pre = ''photos/'' then
        (case token of
           None \<Rightarrow> Inr (examplePages ! 0)
         | Some t \<Rightarrow> if t = ''t1'' then Inr (examplePages ! 1)
                     else if t = ''t2'' then Inr (examplePages ! 2)
                     else Inl ''The continuation token provided is incorrect'')
      else Inr \<lparr> pg_contents = None, pg_next = None \<rparr>)"

definition examplePhoto :: "nat \<Rightarrow> string \<Rightarrow> string \<Rightarrow> Photo" where
  "examplePhoto i name rel =
     \<lparr> photo_id = i, photo_name = name, photo_size = 1000, photo_path = ''/data/photos/'' @ rel,
       photo_relativePath = rel, photo_lastModified = 0 \<rparr>"

definition exampleConfig :: config where
  "exampleConfig = \<lparr> cfg_folderPath = ''/data/photos'', cfg_bucketName = ''bucket'' \<rparr>"

definition exampleRequest :: sync_request where
  "exampleRequest =
     \<lparr> sreq_config = Some exampleConfig,
       localFiles = [examplePhoto 1 ''a.jpg'' ''a.jpg'', examplePhoto 2 ''b.jpg'' ''trip/b.jpg'',
                     examplePhoto 3 ''c.jpg'' ''c.jpg''],
       sreq_jobId = None \<rparr>"

definition exampleStrip :: "string \<Rightarrow> string" where
  "exampleStrip key = (if prefix ''photos/'' key then drop (length ''photos'' + 1) key else key)"

definition emptyServer :: server where
  "emptyServer = \<lparr> jobs = Map.empty, sent = [], timers = [] \<rparr>"

text \<open>A store with one page of keys under \<^verbatim>\<open>photos/\<close>, and a request for one file.\<close>

definition exampleSmallStore :: "string list \<Rightarrow> store" where
  "exampleSmallStore ks pre token =
     (if pre = ''photos/'' then Inr \<lparr> pg_contents = Some ks, pg_next = None \<rparr>
      else Inr \<lparr> pg_contents = None, pg_next = None \<rparr>)"

definition exampleSingle :: "string \<Rightarrow> sync_request" where
  "exampleSingle rel =
     \<lparr> sreq_config = Some exampleConfig, localFiles = [examplePhoto 1 rel rel], sreq_jobId = None \<rparr>"

text \<open>A request for two files: one of exactly 100 MiB, one a byte larger.\<close>

definition exampleUpload :: upload_request where
  "exampleUpload =
     \<lparr> photoPaths = [''/data/photos/a.jpg'', ''/data/photos/trip/clip.mov''],
       req_config = Some exampleConfig, deleteAfterUpload = False, preserveStructure = True,
       req_folderPath = None, req_fileId = None, req_jobId = None \<rparr>"

definition exampleWorld :: "nat \<Rightarrow> file_world" where
  "exampleWorld k =
     (if k = 0
      then \<lparr> w_stat = Inr (100 * 1024 * 1024), w_relative = ''a.jpg'', w_now = 1700000000123,
             w_progress = [], w_read = None, w_upload = None, w_remove = None \<rparr>
      else \<lparr> w_stat = Inr (100 * 1024 * 1024 + 1), w_relative = ''trip/clip.mov'',
             w_now = 1700000000456, w_progress = [], w_read = None, w_upload = None,
             w_remove = None \<rparr>)"

section \<open>Theorems\<close>

subsection \<open>Double-precision rounding\<close>

lemma rne_err: "\<bar>of_int (rne x) - x\<bar> \<le> 1 / 2"
proof -
  have a: "of_int \<lfloor>x\<rfloor> \<le> x" and b: "x < of_int \<lfloor>x\<rfloor> + 1" by linarith+
  show ?thesis unfolding rne_def Let_def using a b
    by (cases "x - of_int \<lfloor>x\<rfloor> < 1 / 2"; cases "1 / 2 < x - of_int \<lfloor>x\<rfloor>"; cases "even \<lfloor>x\<rfloor>"; simp; linarith)
qed

lemma ilog2_lower: assumes "0 < q" shows "2 powi (ilog2 q) \<le> q"
proof (cases "1 \<le> q")
  case True
  then have pos: "0 < nat \<lfloor>q\<rfloor>" by simp
  from floorlog_bounds[where b=2 and x="nat \<lfloor>q\<rfloor>"] pos
  have "(2::nat) ^ (floorlog 2 (nat \<lfloor>q\<rfloor>) - 1) \<le> nat \<lfloor>q\<rfloor>" by simp
  then have "(of_nat ((2::nat) ^ (floorlog 2 (nat \<lfloor>q\<rfloor>) - 1)) :: rat) \<le> of_nat (nat \<lfloor>q\<rfloor>)"
    using of_nat_le_iff by blast
  also have "\<dots> \<le> q" using True by (simp add: of_nat_nat)
  finally have le: "(2::rat) ^ (floorlog 2 (nat \<lfloor>q\<rfloor>) - 1) \<le> q" by simp
  have fl1: "1 \<le> floorlog 2 (nat \<lfloor>q\<rfloor>)" using pos by (simp add: floorlog_def)
  have "ilog2 q = int (floorlog 2 (nat \<lfloor>q\<rfloor>) - 1)" using True fl1 by (simp add: ilog2_def)
  then show ?thesis using le by (simp add: power_int_def del: of_nat_diff)
next
  case False
  with assms have q1: "q < 1" by simp
  define c where "c = \<lceil>1 / q\<rceil>"
  have t: "1 < 1 / q" using assms q1 by (simp add: field_simps)
  have c2: "2 \<le> c" unfolding c_def using t by linarith
  have tc: "1 / q \<le> of_int c" unfolding c_def by linarith
  define b where "b = floorlog 2 (nat (c - 1))"
  have "nat (c - 1) < 2 ^ b" unfolding b_def using floorlog_bounds[where b=2 and x="nat (c - 1)"] c2 by simp
  then have "int (nat (c - 1)) < int (2 ^ b)" by (simp only: of_nat_less_iff)
  then have "c - 1 < 2 ^ b" using c2 by simp
  then have "c \<le> 2 ^ b" by simp
  then have cb: "(of_int c :: rat) \<le> of_int (2 ^ b)" by (simp only: of_int_le_iff)
  have "(of_int ((2::int) ^ b) :: rat) = 2 ^ b" by simp
  with tc cb have "1 / q \<le> 2 ^ b" by linarith
  then have "1 / 2 ^ b \<le> q" using assms by (simp add: field_simps)
  moreover have "ilog2 q = - int b" using False by (simp add: ilog2_def b_def c_def)
  ultimately show ?thesis by (simp add: power_int_minus field_simps)
qed

lemma ilog2_upper: assumes "0 < q" shows "q < 2 powi (ilog2 q + 1)"
proof (cases "1 \<le> q")
  case True
  then have pos: "0 < nat \<lfloor>q\<rfloor>" by simp
  define b where "b = floorlog 2 (nat \<lfloor>q\<rfloor>)"
  from floorlog_bounds[where b=2 and x="nat \<lfloor>q\<rfloor>"] pos
  have "nat \<lfloor>q\<rfloor> < 2 ^ b" by (simp add: b_def)
  then have "int (nat \<lfloor>q\<rfloor>) < int (2 ^ b)" by (simp only: of_nat_less_iff)
  then have "\<lfloor>q\<rfloor> < 2 ^ b" using True by simp
  then have "\<lfloor>q\<rfloor> + 1 \<le> 2 ^ b" by simp
  then have "(of_int (\<lfloor>q\<rfloor> + 1) :: rat) \<le> of_int (2 ^ b)" by (simp only: of_int_le_iff)
  moreover have "q < of_int (\<lfloor>q\<rfloor> + 1)" by linarith
  moreover have "(of_int ((2::int) ^ b) :: rat) = 2 ^ b" by simp
  ultimately have "q < 2 ^ b" by linarith
  moreover have "ilog2 q + 1 = int b" using True by (simp add: ilog2_def b_def)
  ultimately show ?thesis by (simp add: power_int_def)
next
  case False
  with assms have q1: "q < 1" by simp
  define c where "c = \<lceil>1 / q\<rceil>"
  have t: "1 < 1 / q" using assms q1 by (simp add: field_simps)
  have c2: "2 \<le> c" unfolding c_def using t by linarith
  have tc: "of_int c - 1 < 1 / q" unfolding c_def by linarith
  define b where "b = floorlog 2 (nat (c - 1))"
  have b1: "1 \<le> b" unfolding b_def using c2 by (simp add: floorlog_def)
  have "2 ^ (b - 1) \<le> nat (c - 1)" unfolding b_def using floorlog_bounds[where b=2 and x="nat (c - 1)"] c2 by simp
  then have "int (2 ^ (b - 1)) \<le> int (nat (c - 1))" by (simp only: of_nat_le_iff)
  then have "2 ^ (b - 1) \<le> c - 1" using c2 by simp
  then have "(of_int (2 ^ (b - 1)) :: rat) \<le> of_int (c - 1)" by (simp only: of_int_le_iff)
  moreover have "(of_int ((2::int) ^ (b - 1)) :: rat) = 2 ^ (b - 1)" by simp
  moreover have "(of_int (c - 1) :: rat) = of_int c - 1" by simp
  ultimately have "2 ^ (b - 1) < 1 / q" using tc by linarith
  then have lt: "q < 1 / 2 ^ (b - 1)" using assms by (simp add: field_simps)
  have "ilog2 q + 1 = - int (b - 1)" using False b1 by (simp add: ilog2_def b_def c_def)
  then have "(2::rat) powi (ilog2 q + 1) = 1 / 2 ^ (b - 1)"
    by (simp only: power_int_minus) (simp add: field_simps)
  with lt show ?thesis by simp
qed


lemma fl_pos_err: assumes "0 < q" shows "\<bar>fl_pos q - q\<bar> \<le> q / 2 ^ 53"
proof -
  define e where "e = ilog2 q"
  define m where "m = q * 2 powi (52 - e)"
  have pw: "(2::rat) powi (52 - e) * 2 powi (e - 52) = 1"
    by (simp flip: power_int_add)
  have q_eq: "q = m * 2 powi (e - 52)" unfolding m_def using pw by (simp add: mult.assoc)
  have "fl_pos q - q = (of_int (rne m) - m) * 2 powi (e - 52)"
    unfolding fl_pos_def using q_eq by (simp add: e_def m_def algebra_simps)
  then have "\<bar>fl_pos q - q\<bar> = \<bar>of_int (rne m) - m\<bar> * 2 powi (e - 52)"
    by (simp add: abs_mult)
  also have "\<dots> \<le> (1 / 2) * 2 powi (e - 52)"
    by (intro mult_right_mono rne_err) simp
  also have "\<dots> = 2 powi e / 2 ^ 53"
    by (simp add: power_int_diff)
  also have "\<dots> \<le> q / 2 ^ 53"
    using ilog2_lower[OF assms] by (simp add: e_def divide_right_mono)
  finally show ?thesis .
qed

lemma fl_err: "0 \<le> q \<Longrightarrow> \<bar>fl q - q\<bar> \<le> q / 2 ^ 53"
  using fl_pos_err[of q] by (cases "q = 0") (auto simp: fl_def)

lemma fl_one: "fl 1 = 1" by code_simp
lemma fl_hundred: "fl 100 = 100" by code_simp

lemma fl_nonneg: "0 \<le> q \<Longrightarrow> 0 \<le> fl q"
  using fl_err[of q] by (auto simp: abs_if field_simps split: if_splits)

lemma percent_err:
  assumes "0 \<le> x" "x \<le> 1"
  shows "\<bar>fl (fl x * 100) - x * 100\<bar> \<le> 1 / 2 ^ 44"
proof -
  have e1: "\<bar>fl x - x\<bar> \<le> x / 2 ^ 53" using fl_err assms by simp
  have nn: "0 \<le> fl x * 100" using fl_nonneg assms by simp
  have e2: "\<bar>fl (fl x * 100) - fl x * 100\<bar> \<le> fl x * 100 / 2 ^ 53" using fl_err[OF nn] .
  have b1: "\<bar>fl x - x\<bar> \<le> 1 / 2 ^ 53" using e1 assms by (simp add: field_simps) 
  have b2: "fl x \<le> 2" using b1 assms by (simp add: abs_if split: if_splits)
  from e2 b2 have b3: "\<bar>fl (fl x * 100) - fl x * 100\<bar> \<le> 200 / 2 ^ 53" by (simp add: field_simps)
  from b1 b3 show ?thesis by (simp add: abs_if split: if_splits)
qed

lemma progress_updateProgress:
  "progress (updateProgress k item err j) =
     math_round (js_mul_pos (js_div (of_nat k) (of_nat (totalItems j))) 100)"
  by (simp add: updateProgress_def Let_def split: option.splits)

lemma round_near:
  fixes y X e :: rat
  assumes "\<bar>y - X\<bar> \<le> e" and "e \<le> 1 / 2"
  shows "(\<lfloor>y + 1 / 2\<rfloor> = \<lfloor>X\<rfloor> \<or> \<lfloor>y + 1 / 2\<rfloor> = \<lfloor>X\<rfloor> + 1)
         \<and> \<bar>of_int \<lfloor>y + 1 / 2\<rfloor> - X\<bar> \<le> 1 / 2 + e"
proof -
  have a: "X - e \<le> y" "y \<le> X + e" using assms(1) by linarith+
  have lo: "\<lfloor>X\<rfloor> \<le> \<lfloor>y + 1 / 2\<rfloor>"
  proof (rule floor_mono)
    show "X \<le> y + 1 / 2" using a(1) assms(2) by linarith
  qed
  have "X < of_int \<lfloor>X\<rfloor> + 1" by linarith
  then have "y + 1 / 2 < of_int (\<lfloor>X\<rfloor> + 2)" using a(2) assms(2) by simp
  then have hi: "\<lfloor>y + 1 / 2\<rfloor> < \<lfloor>X\<rfloor> + 2" by (simp only: floor_less_iff)
  have f: "of_int \<lfloor>y + 1 / 2\<rfloor> \<le> y + 1 / 2" "y + 1 / 2 < of_int \<lfloor>y + 1 / 2\<rfloor> + 1"
    by linarith+
  have "\<bar>of_int \<lfloor>y + 1 / 2\<rfloor> - X\<bar> \<le> 1 / 2 + e"
    using a f by linarith
  with lo hi show ?thesis by auto
qed


text \<open>
  C2 (as the code has it). For a job with \<open>n > 0\<close> items and \<open>0 \<le> k \<le> n\<close>,
  \<^verbatim>\<open>updateProgress(k)\<close> sets the progress to \<^verbatim>\<open>Math.round((k / n) * 100)\<close>: the integer
  nearest to the double-precision product (ties upwards), which is \<open>\<lfloor>100 k / n\<rfloor>\<close> or one
  more, lies within \<open>1/2 + 2^-44\<close> of \<open>100 k / n\<close> and between 0 and 100. The bound
  \<open>n < 2^32\<close> is the length limit of a JavaScript array, from which \<open>n\<close> is taken.
\<close>

theorem progress_is_rounded:
  assumes n: "0 < totalItems j" and k: "k \<le> totalItems j" and len: "totalItems j < 2 ^ 32"
  shows "\<exists>p. progress (updateProgress k item err j) = Fin (of_int p)
           \<and> p = \<lfloor>fl (fl (of_nat k / of_nat (totalItems j)) * 100) + 1 / 2\<rfloor>
           \<and> (p = \<lfloor>of_nat k / of_nat (totalItems j) * (100::rat)\<rfloor>
                \<or> p = \<lfloor>of_nat k / of_nat (totalItems j) * (100::rat)\<rfloor> + 1)
           \<and> \<bar>of_int p - of_nat k / of_nat (totalItems j) * (100::rat)\<bar> \<le> 1 / 2 + 1 / 2 ^ 44
           \<and> 0 \<le> p \<and> p \<le> 100"
proof -
  define x :: rat where "x = of_nat k / of_nat (totalItems j)"
  define y where "y = fl (fl x * 100)"
  have x0: "0 \<le> x" unfolding x_def by simp
  have x1: "x \<le> 1" unfolding x_def using n k by simp
  have pr: "progress (updateProgress k item err j) = Fin (of_int \<lfloor>y + 1 / 2\<rfloor>)"
    using n by (simp add: progress_updateProgress js_div_def x_def y_def)
  have near: "\<bar>y - x * 100\<bar> \<le> 1 / 2 ^ 44" unfolding y_def by (rule percent_err[OF x0 x1])
  have small: "(1::rat) / 2 ^ 44 \<le> 1 / 2" by simp
  note rn = round_near[OF near small]
  have lo: "0 \<le> \<lfloor>x * 100\<rfloor>" using x0 by simp
  have hi: "\<lfloor>y + 1 / 2\<rfloor> \<le> 100"
  proof (cases "k = totalItems j")
    case True
    then have "x = 1" unfolding x_def using n by simp
    then have "y = 100" unfolding y_def by (simp add: fl_one fl_hundred)
    then show ?thesis by simp
  next
    case False
    with k have "k < totalItems j" by simp
    then have "(of_nat k :: rat) < of_nat (totalItems j)" by (simp only: of_nat_less_iff)
    then have "x < 1" unfolding x_def using n by (simp add: divide_less_eq_1_pos)
    then have "x * 100 < of_int 100" by simp
    then have "\<lfloor>x * 100\<rfloor> < 100" by (simp only: floor_less_iff)
    with rn[THEN conjunct1] show ?thesis by arith
  qed
  define p where "p = \<lfloor>y + 1 / 2\<rfloor>"
  have c1: "progress (updateProgress k item err j) = Fin (of_int p)" using pr by (simp only: p_def)
  have c2: "p = \<lfloor>fl (fl (of_nat k / of_nat (totalItems j)) * 100) + 1 / 2\<rfloor>"
    by (simp only: p_def y_def x_def)
  have c3: "p = \<lfloor>x * 100\<rfloor> \<or> p = \<lfloor>x * 100\<rfloor> + 1" using rn by (simp only: p_def)
  have c4: "\<bar>of_int p - x * 100\<bar> \<le> 1 / 2 + 1 / 2 ^ 44" using rn by (simp only: p_def)
  have c5: "0 \<le> p" using c3 lo by arith
  have c6: "p \<le> 100" using hi by (simp only: p_def)
  show ?thesis using c1 c2 c3 c4 c5 c6 unfolding x_def by blast
qed


theorem progress_is_rounded_witness:
  "0 < totalItems (newJob ''j'' ''upload'' 200 0) \<and> (29::nat) \<le> totalItems (newJob ''j'' ''upload'' 200 0)
   \<and> totalItems (newJob ''j'' ''upload'' 200 0) < 2 ^ 32
   \<and> (\<exists>p. progress (updateProgress 29 None None (newJob ''j'' ''upload'' 200 0)) = Fin (of_int p)
          \<and> p \<le> 100)"
  using progress_is_rounded [of "newJob ''j'' ''upload'' 200 0" 29 None None]
  by (simp add: newJob_def)

text \<open>
  The claim's \<open>floor\<close> fails at 2 of 3 items (67, not 66), and with no items the division
  is \<open>0 / 0\<close>: the progress becomes NaN.
\<close>

theorem progress_floor_counterexample:
  "progress (updateProgress 2 None None (newJob ''j'' ''upload'' 3 0)) = Fin 67
   \<and> \<lfloor>(2::rat) / 3 * 100\<rfloor> = 66
   \<and> progress (updateProgress 0 None None (newJob ''j'' ''upload'' 0 0)) = NaN"
  by code_simp

subsection \<open>The job state machine\<close>

lemma status_updateProgress: "status (updateProgress c item err j) = status j"
  by (simp add: updateProgress_def Let_def split: option.splits)

lemma errors_updateProgress:
  "errors (updateProgress c item err j) =
     errors j @ (case err of None \<Rightarrow> [] | Some e \<Rightarrow> if e \<noteq> [] then [e] else [])"
  by (simp add: updateProgress_def Let_def split: option.splits)

lemma errors_apply_op: "prefix (errors j) (errors (apply_op x j))"
  by (cases x) (simp_all add: errors_updateProgress complete_job_def fail_job_def)

lemma status_apply_op: "status j \<noteq> Running \<Longrightarrow> status (apply_op x j) \<noteq> Running"
  by (cases x) (simp_all add: status_updateProgress complete_job_def fail_job_def)

text \<open>
  C5 (as the code has it). No operation returns a job to \<open>running\<close>, and
  \<^verbatim>\<open>updateProgress\<close> leaves the status alone, so a job that has left \<open>running\<close> stays
  terminal under every sequence of operations; \<^verbatim>\<open>complete\<close> and \<^verbatim>\<open>fail\<close> set their
  status whatever the current one is. The error list only grows: the old list is a
  prefix of the new one, in every state.
\<close>

theorem job_terminal_and_errors_grow:
  "(status j \<noteq> Running \<longrightarrow> status (apply_ops ops j) \<noteq> Running)
   \<and> prefix (errors j) (errors (apply_ops ops j))
   \<and> status (apply_op (UpdateProgress c item err) j) = status j
   \<and> status (apply_op Complete j) = Completed
   \<and> status (apply_op (Fail e) j) = Failed"
proof -
  have a: "status j \<noteq> Running \<Longrightarrow> status (apply_ops ops j) \<noteq> Running"
    by (induction ops arbitrary: j) (simp_all add: status_apply_op)
  have b: "prefix (errors j) (errors (apply_ops ops j))"
  proof (induction ops arbitrary: j)
    case Nil
    show ?case by simp
  next
    case (Cons x xs)
    have "prefix (errors j) (errors (apply_op x j))" by (rule errors_apply_op)
    also have "prefix (errors (apply_op x j)) (errors (apply_ops xs (apply_op x j)))" by (rule Cons.IH)
    finally show ?case by simp
  qed
  show ?thesis using a b by (simp add: status_updateProgress complete_job_def fail_job_def)
qed

theorem job_terminal_and_errors_grow_witness:
  "status (fail_job ''boom'' (newJob ''j'' ''upload'' 2 0)) \<noteq> Running
   \<and> status (apply_ops [UpdateProgress 1 None (Some ''late''), Complete]
         (fail_job ''boom'' (newJob ''j'' ''upload'' 2 0))) \<noteq> Running
   \<and> errors (apply_ops [UpdateProgress 1 None (Some ''late''), Complete]
         (fail_job ''boom'' (newJob ''j'' ''upload'' 2 0))) = [''boom'', ''late'']"
  using job_terminal_and_errors_grow [of "fail_job ''boom'' (newJob ''j'' ''upload'' 2 0)"
      "[UpdateProgress 1 None (Some ''late''), Complete]"]
  by (simp add: fail_job_def newJob_def complete_job_def errors_updateProgress)

text \<open>A failed job that is then completed changes from \<open>failed\<close> to \<open>completed\<close>.\<close>

theorem terminal_status_counterexample:
  "status (fail_job ''boom'' (newJob ''j'' ''upload'' 2 0)) = Failed
   \<and> status (apply_op Complete (fail_job ''boom'' (newJob ''j'' ''upload'' 2 0))) = Completed"
  by (simp add: fail_job_def newJob_def complete_job_def)

subsection \<open>Destination keys\<close>

lemma posix_basename_last_segment:
  assumes "s \<noteq> []" and "CHR ''/'' \<notin> set s"
  shows "posix_basename (d @ ''/'' @ s) = s"
proof -
  have a: "dropWhile (\<lambda>c. c = CHR ''/'') (rev s @ CHR ''/'' # rev d) = rev s @ CHR ''/'' # rev d"
    using assms by (cases "rev s") auto
  have b: "takeWhile (\<lambda>c. c \<noteq> CHR ''/'') (rev s @ CHR ''/'' # rev d) = rev s"
    using assms by (subst takeWhile_append2) auto
  show ?thesis by (simp add: posix_basename_def a b)
qed

lemma backslashToSlash_id: "CHR 0x5C \<notin> set r \<Longrightarrow> backslashToSlash r = r"
  by (induction r) (auto simp: backslashToSlash_def)

text \<open>
  C7 (as the code has it). With structure preservation the key is the base folder
  name, a slash and the relative path with every backslash replaced by a slash, which
  is \<open>base/relativePath\<close> itself when the relative path holds no backslash; otherwise it
  is \<open>base/<Date.now()>_<filename>\<close> with the time in decimal digits. The base folder
  name is \<^verbatim>\<open>path.basename\<close> of the configured folder after tilde expansion: its last
  path segment.
\<close>

theorem destination_key_scheme:
  "s3KeyFor True b r t f = b @ ''/'' @ backslashToSlash r
   \<and> (CHR 0x5C \<notin> set r \<longrightarrow> s3KeyFor True b r t f = b @ ''/'' @ r)
   \<and> s3KeyFor False b r t f = b @ ''/'' @ showNat t @ ''_'' @ f
   \<and> baseFolderName home p = posix_basename (expandTilde home p)
   \<and> (s \<noteq> [] \<and> CHR ''/'' \<notin> set s \<and> take 2 (d @ ''/'' @ s) \<noteq> ''~/''
        \<longrightarrow> baseFolderName home (d @ ''/'' @ s) = s)"
  using posix_basename_last_segment[of s d]
  by (simp add: s3KeyFor_def backslashToSlash_id baseFolderName_def expandTilde_def)

theorem destination_key_scheme_witness:
  "CHR 0x5C \<notin> set ''trip/a.jpg''
   \<and> s3KeyFor True ''videos'' ''trip/a.jpg'' 1700000000123 ''a.jpg'' = ''videos/trip/a.jpg''
   \<and> s3KeyFor False ''videos'' ''trip/a.jpg'' 1700000000123 ''a.jpg'' = ''videos/1700000000123_a.jpg''
   \<and> ''videos'' \<noteq> [] \<and> CHR ''/'' \<notin> set ''videos'' \<and> take 2 (''/Users/user'' @ ''/'' @ ''videos'') \<noteq> ''~/''
   \<and> baseFolderName ''/home/u'' ''/Users/user/videos'' = ''videos''"
  using destination_key_scheme [of "''videos''" "''trip/a.jpg''" 1700000000123 "''a.jpg''" "''/home/u''" "''/Users/user/videos''" "''videos''" "''/Users/user''"]
  by (simp add: showNat.simps digitChar_def s3KeyFor_def backslashToSlash_def baseFolderName_def
      expandTilde_def posix_basename_def)

text \<open>
  A file whose name is \<open>a\<close>, a backslash and \<open>b.jpg\<close>, directly under the root (a legal
  POSIX file name, and the shape of every nested relative path on Windows) is stored
  under \<^verbatim>\<open>videos/a/b.jpg\<close>,
  which is not \<open>base/relativePath\<close>.
\<close>

theorem destination_key_backslash_counterexample:
  "s3KeyFor True ''videos'' (''a'' @ [CHR 0x5C] @ ''b.jpg'') 0 (''a'' @ [CHR 0x5C] @ ''b.jpg'') = ''videos/a/b.jpg''
   \<and> ''videos/a/b.jpg'' \<noteq> ''videos'' @ ''/'' @ (''a'' @ [CHR 0x5C] @ ''b.jpg'')"
  by (simp add: s3KeyFor_def backslashToSlash_def)


subsection \<open>The upload batch\<close>

lemma updateProgress_fields:
  "totalItems (updateProgress c item err j) = totalItems j"
  "completedItems (updateProgress c item err j) = c"
  "status (updateProgress c item err j) = status j"
  "job_id (updateProgress c item err j) = job_id j"
  by (simp_all add: updateProgress_def Let_def split: option.splits)

lemma updateProgress_no_error:
  "errors (updateProgress c item None j) = errors j"
  "failedItems (updateProgress c item None j) = failedItems j"
  by (simp_all add: updateProgress_def Let_def)

lemma updateProgress_error:
  "errors (updateProgress c item (Some e) j) = errors j @ (if e \<noteq> [] then [e] else [])"
  "failedItems (updateProgress c item (Some e) j) = failedItems j + (if e \<noteq> [] then 1 else 0)"
  by (simp_all add: updateProgress_def Let_def)

lemma jobCall_fields:
  "h_job (jobCall f h) = f (h_job h)"
  "h_results (jobCall f h) = h_results h"
  "h_sent (jobCall f h) = h_sent h @ [JobUpdate (f (h_job h))]"
  "h_ops (jobCall f h) = h_ops h"
  by (simp_all add: jobCall_def Let_def)

lemma doOps_fields:
  "h_job (doOps xs h) = h_job h"
  "h_results (doOps xs h) = h_results h"
  "h_sent (doOps xs h) = h_sent h"
  "h_ops (doOps xs h) = h_ops h @ xs"
  by (simp_all add: doOps_def)

lemma progress_events_keep:
  fixes lbl :: "nat \<times> nat \<Rightarrow> string"
  defines "step \<equiv> (\<lambda>i p. jobCall (updateProgress i (Some (lbl p)) None))"
  shows "h_results (fold (step i) ps h) = h_results h
       \<and> errors (h_job (fold (step i) ps h)) = errors (h_job h)
       \<and> failedItems (h_job (fold (step i) ps h)) = failedItems (h_job h)
       \<and> status (h_job (fold (step i) ps h)) = status (h_job h)
       \<and> totalItems (h_job (fold (step i) ps h)) = totalItems (h_job h)
       \<and> job_id (h_job (fold (step i) ps h)) = job_id (h_job h)
       \<and> h_ops (fold (step i) ps h) = h_ops h"
  by (induction ps arbitrary: h)
     (simp_all add: step_def jobCall_fields updateProgress_fields updateProgress_no_error)

lemma snd_transferBlock:
  "snd (transferBlock p key sz w) =
     (if isLargeFile sz then w_upload w
      else (case w_read w of Some e \<Rightarrow> Some e | None \<Rightarrow> w_upload w))"
  by (simp add: transferBlock_def split: option.splits)

lemma uploadFile_effect:
  "h_results (uploadFile req jid base i p w h) = h_results h @ [outcomeOf req base p w]
       \<and> errors (h_job (uploadFile req jid base i p w h)) = errors (h_job h) @ recordedError req w
       \<and> failedItems (h_job (uploadFile req jid base i p w h)) = failedItems (h_job h) + length (recordedError req w)
       \<and> status (h_job (uploadFile req jid base i p w h)) = status (h_job h)
       \<and> totalItems (h_job (uploadFile req jid base i p w h)) = totalItems (h_job h)
       \<and> job_id (h_job (uploadFile req jid base i p w h)) = job_id (h_job h)
       \<and> completedItems (h_job (uploadFile req jid base i p w h)) = i + 1
       \<and> h_ops (uploadFile req jid base i p w h) = h_ops h @ fileOps req base p w"
proof (cases "w_stat w")
  case (Inl e)
  then show ?thesis
    by (simp add: uploadFile_def Let_def fileFailed_def outcomeOf_def recordedError_def transferError_def
        fileOps_def jobCall_fields doOps_fields updateProgress_fields updateProgress_no_error
        updateProgress_error)
next
  case (Inr sz)
  define key where "key = s3KeyFor (preserveStructure req) base (w_relative w) (w_now w) (posix_basename p)"
  note pe = progress_events_keep[of i "progressLabel (posix_basename p)" "w_progress w"
      "doOps [Stat p] (jobCall (updateProgress i (Some (posix_basename p)) None) h)"]
  define up where "up = snd (transferBlock p key sz w)"
  define rm where "rm = (if deleteAfterUpload req then w_remove w else None)"
  have te: "transferError (deleteAfterUpload req) w = (case up of Some e \<Rightarrow> Some e | None \<Rightarrow> rm)"
    using Inr by (auto simp: transferError_def up_def rm_def snd_transferBlock split: option.splits)
  show ?thesis
  proof (cases up)
    case (Some e)
    with Inr pe te show ?thesis
      by (simp add: uploadFile_def Let_def fileFailed_def outcomeOf_def recordedError_def fileOps_def
          key_def[symmetric] up_def[symmetric] jobCall_fields doOps_fields updateProgress_fields
          updateProgress_no_error updateProgress_error)
  next
    case None
    show ?thesis
    proof (cases rm)
      case (Some e)
      with None Inr pe te show ?thesis
        by (simp add: uploadFile_def Let_def fileFailed_def outcomeOf_def recordedError_def fileOps_def
            key_def[symmetric] up_def[symmetric] rm_def[symmetric] jobCall_fields doOps_fields
            updateProgress_fields updateProgress_no_error updateProgress_error)
    next
      case rmNone: None
      with None Inr pe te show ?thesis
        by (simp add: uploadFile_def Let_def outcomeOf_def recordedError_def fileOps_def
            key_def[symmetric] up_def[symmetric] rm_def[symmetric] jobCall_fields doOps_fields
            updateProgress_fields updateProgress_no_error)
    qed
  qed
qed

lemma uploadLoop_effect:
  "h_results (uploadLoop req jid base world i ps h) =
      h_results h @ map (\<lambda>(k, p). outcomeOf req base p (world k)) (enumerate i ps)
   \<and> errors (h_job (uploadLoop req jid base world i ps h)) =
      errors (h_job h) @ concat (map (\<lambda>(k, p). recordedError req (world k)) (enumerate i ps))
   \<and> failedItems (h_job (uploadLoop req jid base world i ps h)) =
      failedItems (h_job h) + length (concat (map (\<lambda>(k, p). recordedError req (world k)) (enumerate i ps)))
   \<and> status (h_job (uploadLoop req jid base world i ps h)) = status (h_job h)
   \<and> totalItems (h_job (uploadLoop req jid base world i ps h)) = totalItems (h_job h)
   \<and> job_id (h_job (uploadLoop req jid base world i ps h)) = job_id (h_job h)
   \<and> completedItems (h_job (uploadLoop req jid base world i ps h)) =
      (if ps = [] then completedItems (h_job h) else i + length ps)
   \<and> h_ops (uploadLoop req jid base world i ps h) =
      h_ops h @ concat (map (\<lambda>(k, p). fileOps req base p (world k)) (enumerate i ps))"
proof (induction ps arbitrary: i h)
  case Nil
  show ?case by simp
next
  case (Cons p ps)
  note ih = Cons.IH[of "Suc i" "uploadFile req jid base i p (world i) h"]
  note one = uploadFile_effect[of req jid base i p "world i" h]
  show ?case using ih one by simp
qed

text \<open>
  The whole batch, for a request that carries a configuration. The job ends
  \<open>completed\<close> whatever the files did; \<^verbatim>\<open>results\<close> has one entry per path, in order, a
  failed one with its error; the completed counter ends at the number of paths; the
  job's error list and failure counter hold the failures whose message is not empty;
  the removal timer is set 30000 ms after the end of the loop.
\<close>

lemma uploadFolder_batch:
  fixes home :: string and world :: "nat \<Rightarrow> file_world" and req :: upload_request and cfg :: config
  assumes cfg: "req_config req = Some cfg"
  defines "base \<equiv> baseFolderName home (cfg_folderPath cfg)"
  defines "files \<equiv> enumerate 0 (photoPaths req)"
  defines "results \<equiv> map (\<lambda>(k, p). outcomeOf req base p (world k)) files"
  defines "errs \<equiv> concat (map (\<lambda>(k, p). recordedError req (world k)) files)"
  shows "\<exists>j evs. fst (uploadFolder home newId t0 t1 req world srv) = Accepted newId
           \<and> jobs (snd (uploadFolder home newId t0 t1 req world srv)) newId = Some j
           \<and> status j = Completed \<and> progress j = Fin 100
           \<and> totalItems j = length (photoPaths req)
           \<and> completedItems j = length (photoPaths req)
           \<and> failedItems j = length errs \<and> errors j = errs
           \<and> length results = length (photoPaths req)
           \<and> sent (snd (uploadFolder home newId t0 t1 req world srv)) =
                 sent srv @ evs @ [UploadResult newId results
                    (if truthy (req_folderPath req) then req_folderPath req else None)
                    (if truthy (req_fileId req) then req_fileId req else None), JobUpdate j]
           \<and> timers (snd (uploadFolder home newId t0 t1 req world srv)) = timers srv @ [(t1 + 30000, newId)]"
proof -
  define h0 where "h0 = \<lparr> h_job = newJob newId ''upload'' (length (photoPaths req)) t0, h_results = [], h_sent = [], h_ops = [] \<rparr>"
  define h where "h = uploadLoop req newId base world 0 (photoPaths req) h0"
  note le = uploadLoop_effect[of req newId base world 0 "photoPaths req" h0]
  have r: "h_results h = results" using le by (simp add: h_def h0_def results_def files_def)
  have e: "errors (h_job h) = errs" using le by (simp add: h_def h0_def errs_def files_def newJob_def)
  have f: "failedItems (h_job h) = length errs" using le by (simp add: h_def h0_def errs_def files_def newJob_def)
  have t: "totalItems (h_job h) = length (photoPaths req)" using le by (simp add: h_def h0_def newJob_def)
  have c: "completedItems (h_job h) = length (photoPaths req)" using le by (simp add: h_def h0_def newJob_def)
  have l: "length results = length (photoPaths req)" by (simp add: results_def files_def)
  show ?thesis
    apply (rule exI[of _ "complete_job (h_job h)"])
    apply (rule exI[of _ "h_sent h"])
    using r e f t c l cfg
    by (simp add: uploadFolder_def uploadFolderTrace_def Let_def jobCall_def complete_job_def h_def[symmetric] h0_def[symmetric] base_def[symmetric])
qed


text \<open>
  C1, at a batch of one file whose upload is rejected with an empty error message. The
  batch still ends \<open>completed\<close> with one outcome, marked unsuccessful, and the completed
  counter at 1; but \<^verbatim>\<open>if (error)\<close> in \<^verbatim>\<open>updateProgress\<close> takes the empty message for no
  error: the failure counter stays 0 and the error list stays empty. For every other
  batch \<open>uploadFolder_batch\<close> above gives what the claim says.
\<close>

theorem upload_empty_message_not_counted:
  "map_option (\<lambda>j. (status j, completedItems j, failedItems j, errors j))
     (jobs (snd (uploadFolder ''/home/u'' ''job1'' 0 5
        \<lparr> photoPaths = [''/p/a.jpg''],
          req_config = Some \<lparr> cfg_folderPath = ''/p'', cfg_bucketName = ''bucket'' \<rparr>,
          deleteAfterUpload = False, preserveStructure = True,
          req_folderPath = None, req_fileId = None, req_jobId = None \<rparr>
        (\<lambda>i. \<lparr> w_stat = Inr 10, w_relative = ''a.jpg'', w_now = 1, w_progress = [],
                w_read = None, w_upload = Some [], w_remove = None \<rparr>)
        \<lparr> jobs = Map.empty, sent = [], timers = [] \<rparr>)) ''job1'')
     = Some (Completed, 1, 0, [])
   \<and> UploadResult ''job1''
        [\<lparr> o_success = False, o_path = ''/p/a.jpg'', o_s3Key = None, o_relativePath = None,
           o_error = Some [] \<rparr>] None None
      \<in> set (sent (snd (uploadFolder ''/home/u'' ''job1'' 0 5
        \<lparr> photoPaths = [''/p/a.jpg''],
          req_config = Some \<lparr> cfg_folderPath = ''/p'', cfg_bucketName = ''bucket'' \<rparr>,
          deleteAfterUpload = False, preserveStructure = True,
          req_folderPath = None, req_fileId = None, req_jobId = None \<rparr>
        (\<lambda>i. \<lparr> w_stat = Inr 10, w_relative = ''a.jpg'', w_now = 1, w_progress = [],
                w_read = None, w_upload = Some [], w_remove = None \<rparr>)
        \<lparr> jobs = Map.empty, sent = [], timers = [] \<rparr>)))"
  by (simp add: uploadFolder_def uploadFolderTrace_def Let_def uploadFile_def fileFailed_def transferBlock_def doOps_def
      isLargeFile_def jobCall_def updateProgress_def complete_job_def newJob_def)

lemma fileOps_explicit:
  assumes "w_stat w = Inr s"
  shows "fileOps req base p w =
     [Stat p] @
     (if 100 * 1024 * 1024 < s
      then [CreateReadStream p,
            S3Upload (s3KeyFor (preserveStructure req) base (w_relative w) (w_now w) (posix_basename p)) Streaming]
      else if w_read w = None
      then [ReadFile p,
            S3Upload (s3KeyFor (preserveStructure req) base (w_relative w) (w_now w) (posix_basename p)) Buffered]
      else [ReadFile p]) @
     (if deleteAfterUpload req \<and> w_upload w = None \<and> (100 * 1024 * 1024 < s \<or> w_read w = None)
      then [Remove p] else [])"
  using assms
  by (auto simp: fileOps_def transferBlock_def isLargeFile_def Let_def split: option.splits)

lemma fileOps_photoPaths: "fileOps (req\<lparr> photoPaths := xs \<rparr>) base p w = fileOps req base p w"
  by (cases "w_stat w") (simp_all add: fileOps_def)

lemma uploadFolderTrace_ops:
  assumes "req_config req = Some cfg"
  shows "snd (uploadFolderTrace home newId t0 t1 req world srv) =
           concat (map (\<lambda>(k, p). fileOps req (baseFolderName home (cfg_folderPath cfg)) p (world k))
                     (enumerate 0 (photoPaths req)))"
  using assms
    uploadLoop_effect[of req newId "baseFolderName home (cfg_folderPath cfg)" world 0 "photoPaths req"
      "\<lparr> h_job = newJob newId ''upload'' (length (photoPaths req)) t0, h_results = [], h_sent = [], h_ops = [] \<rparr>"]
  by (simp add: uploadFolderTrace_def Let_def jobCall_fields)

text \<open>
  C6. What \<^verbatim>\<open>/api/upload-folder\<close> does with the file at position \<open>k\<close> of a request, when
  \<^verbatim>\<open>fs.stat\<close> gives its size \<open>s\<close>. The calls the handler makes for the first \<open>k + 1\<close>
  paths are its calls for the first \<open>k\<close> paths followed by \<^verbatim>\<open>fs.stat\<close> and then: if
  \<open>s > 100 * 1024 * 1024\<close>, \<^verbatim>\<open>fs.createReadStream\<close> and an upload of the stream, and no
  \<^verbatim>\<open>fs.readFile\<close>; otherwise \<^verbatim>\<open>fs.readFile\<close> and, if the read succeeds, an upload of the
  buffer, and no stream; then \<^verbatim>\<open>fs.remove\<close> if deletion was requested and nothing failed.
  These calls are the beginning of the handler's calls for the whole request. The test
  is strict: \<open>100 * 1024 * 1024\<close> bytes is not a large file, one byte more is.
\<close>

theorem transfer_strategy_by_size:
  fixes req :: upload_request and world :: "nat \<Rightarrow> file_world" and k :: nat
    and home newId :: string and t0 t1 :: nat and srv :: server
  assumes cfg: "req_config req = Some cfg"
      and k: "k < length (photoPaths req)"
      and st: "w_stat (world k) = Inr s"
  defines "p \<equiv> photoPaths req ! k"
      and "key \<equiv> s3KeyFor (preserveStructure req) (baseFolderName home (cfg_folderPath cfg))
                    (w_relative (world k)) (w_now (world k)) (posix_basename (photoPaths req ! k))"
      and "calls \<equiv> (\<lambda>n. snd (uploadFolderTrace home newId t0 t1
                                  (req\<lparr> photoPaths := take n (photoPaths req) \<rparr>) world srv))"
  shows "calls (Suc k) =
           calls k @ [Stat p] @
           (if 100 * 1024 * 1024 < s then [CreateReadStream p, S3Upload key Streaming]
            else if w_read (world k) = None then [ReadFile p, S3Upload key Buffered]
            else [ReadFile p]) @
           (if deleteAfterUpload req \<and> w_upload (world k) = None
                \<and> (100 * 1024 * 1024 < s \<or> w_read (world k) = None)
            then [Remove p] else [])
       \<and> prefix (calls (Suc k)) (snd (uploadFolderTrace home newId t0 t1 req world srv))
       \<and> isLargeFile s = (100 * 1024 * 1024 < s)
       \<and> \<not> isLargeFile (100 * 1024 * 1024) \<and> isLargeFile (100 * 1024 * 1024 + 1)"
proof -
  define base where "base = baseFolderName home (cfg_folderPath cfg)"
  define F where "F = (\<lambda>(j, q). fileOps req base q (world j))"
  have calls: "calls n = concat (map F (enumerate 0 (take n (photoPaths req))))" for n
    using cfg
    by (simp add: calls_def uploadFolderTrace_ops[of _ cfg] fileOps_photoPaths F_def base_def)
  have whole: "snd (uploadFolderTrace home newId t0 t1 req world srv) = concat (map F (enumerate 0 (photoPaths req)))"
    using cfg by (simp add: uploadFolderTrace_ops[of _ cfg] F_def base_def)
  have en: "enumerate 0 (take (Suc k) (photoPaths req)) = enumerate 0 (take k (photoPaths req)) @ [(k, p)]"
    using k by (simp add: take_Suc_conv_app_nth enumerate_append_eq p_def)
  have a: "calls (Suc k) = calls k @ fileOps req base p (world k)"
    by (simp add: calls en F_def)
  have "photoPaths req = take (Suc k) (photoPaths req) @ drop (Suc k) (photoPaths req)" by simp
  then have "enumerate 0 (photoPaths req) =
               enumerate 0 (take (Suc k) (photoPaths req)) @
               enumerate (0 + length (take (Suc k) (photoPaths req))) (drop (Suc k) (photoPaths req))"
    by (metis enumerate_append_eq)
  then have b: "prefix (calls (Suc k)) (snd (uploadFolderTrace home newId t0 t1 req world srv))"
    by (simp add: calls whole)
  have c: "isLargeFile s = (100 * 1024 * 1024 < s)
       \<and> \<not> isLargeFile (100 * 1024 * 1024) \<and> isLargeFile (100 * 1024 * 1024 + 1)"
    by (simp add: isLargeFile_def)
  note a' = a[unfolded fileOps_explicit[OF st] base_def, folded key_def[unfolded p_def[symmetric]]]
  show ?thesis
    apply (rule conjI)
     apply (rule a'[unfolded p_def key_def] a')
    apply (rule conjI)
     apply (rule b)
    apply (rule c)
    done
qed

theorem transfer_strategy_by_size_witness:
  "req_config exampleUpload = Some exampleConfig
   \<and> 0 < length (photoPaths exampleUpload) \<and> 1 < length (photoPaths exampleUpload)
   \<and> w_stat (exampleWorld 0) = Inr (100 * 1024 * 1024)
   \<and> w_stat (exampleWorld 1) = Inr (100 * 1024 * 1024 + 1)
   \<and> snd (uploadFolderTrace ''/home/u'' ''job1'' 0 5
            (exampleUpload\<lparr> photoPaths := take 0 (photoPaths exampleUpload) \<rparr>) exampleWorld emptyServer) = []
   \<and> snd (uploadFolderTrace ''/home/u'' ''job1'' 0 5
            (exampleUpload\<lparr> photoPaths := take 1 (photoPaths exampleUpload) \<rparr>) exampleWorld emptyServer)
       = [Stat ''/data/photos/a.jpg'', ReadFile ''/data/photos/a.jpg'', S3Upload ''photos/a.jpg'' Buffered]
   \<and> snd (uploadFolderTrace ''/home/u'' ''job1'' 0 5 exampleUpload exampleWorld emptyServer)
       = [Stat ''/data/photos/a.jpg'', ReadFile ''/data/photos/a.jpg'', S3Upload ''photos/a.jpg'' Buffered,
          Stat ''/data/photos/trip/clip.mov'', CreateReadStream ''/data/photos/trip/clip.mov'',
          S3Upload ''photos/trip/clip.mov'' Streaming]"
proof -
  have h1: "req_config exampleUpload = Some exampleConfig" by (simp add: exampleUpload_def)
  have k0: "0 < length (photoPaths exampleUpload)" by (simp add: exampleUpload_def)
  have k1: "1 < length (photoPaths exampleUpload)" by (simp add: exampleUpload_def)
  have s0: "w_stat (exampleWorld 0) = Inr (100 * 1024 * 1024)" by (simp add: exampleWorld_def)
  have s1: "w_stat (exampleWorld 1) = Inr (100 * 1024 * 1024 + 1)" by (simp add: exampleWorld_def)
  have e: "snd (uploadFolderTrace ''/home/u'' ''job1'' 0 5
            (exampleUpload\<lparr> photoPaths := take 0 (photoPaths exampleUpload) \<rparr>) exampleWorld emptyServer) = []"
    by (simp add: uploadFolderTrace_def Let_def exampleUpload_def jobCall_fields)
  have base: "baseFolderName ''/home/u'' (cfg_folderPath exampleConfig) = ''photos''"
    by (simp add: exampleConfig_def baseFolderName_def expandTilde_def posix_basename_def)
  have two: "take (Suc 1) (photoPaths exampleUpload) = photoPaths exampleUpload"
    by (simp add: exampleUpload_def)
  note t0 = transfer_strategy_by_size [where req = exampleUpload and cfg = exampleConfig and k = 0 and world = exampleWorld
      and s = "100 * 1024 * 1024" and home = "''/home/u''" and newId = "''job1''" and ?t0.0 = 0
      and ?t1.0 = 5 and srv = emptyServer, OF h1 k0 s0]
  note t1 = transfer_strategy_by_size [where req = exampleUpload and cfg = exampleConfig and k = 1 and world = exampleWorld
      and s = "100 * 1024 * 1024 + 1" and home = "''/home/u''" and newId = "''job1''" and ?t0.0 = 0
      and ?t1.0 = 5 and srv = emptyServer, OF h1 k1 s1]
  have a: "snd (uploadFolderTrace ''/home/u'' ''job1'' 0 5
            (exampleUpload\<lparr> photoPaths := take 1 (photoPaths exampleUpload) \<rparr>) exampleWorld emptyServer)
       = [Stat ''/data/photos/a.jpg'', ReadFile ''/data/photos/a.jpg'', S3Upload ''photos/a.jpg'' Buffered]"
    using t0 e
    by (simp add: base exampleUpload_def exampleWorld_def s3KeyFor_def backslashToSlash_def)
  have b: "snd (uploadFolderTrace ''/home/u'' ''job1'' 0 5 exampleUpload exampleWorld emptyServer)
       = [Stat ''/data/photos/a.jpg'', ReadFile ''/data/photos/a.jpg'', S3Upload ''photos/a.jpg'' Buffered,
          Stat ''/data/photos/trip/clip.mov'', CreateReadStream ''/data/photos/trip/clip.mov'',
          S3Upload ''photos/trip/clip.mov'' Streaming]"
    using t1 a
    apply (simp only: two)
    apply (simp add: base exampleUpload_def exampleWorld_def s3KeyFor_def backslashToSlash_def)
    done
  from h1 k0 k1 s0 s1 e a b show ?thesis by blast
qed

subsection \<open>Errors outside the loop, and retirement\<close>

lemma catchBlock_other:
  "bodyId \<noteq> Some newId \<Longrightarrow> jobs (catchBlock bodyId msg srv) newId = jobs srv newId"
  by (auto simp: catchBlock_def Let_def split: option.splits)

lemma catchBlock_timers: "timers (catchBlock bodyId msg srv) = timers srv"
  by (simp add: catchBlock_def Let_def split: option.splits)

lemma catchBlock_sent_other:
  "JobUpdate j \<in> set (sent (catchBlock bodyId msg srv)) \<Longrightarrow> JobUpdate j \<notin> set (sent srv)
     \<Longrightarrow> bodyId = Some (the bodyId) \<and> (\<exists>j0. jobs srv (the bodyId) = Some j0 \<and> j = fail_job msg j0)"
  by (auto simp: catchBlock_def Let_def split: option.splits if_splits)

lemma checkSyncStatus_listing_failure:
  assumes "sreq_config req = Some cfg"
    and "listAll s3 rx (baseFolderName home (cfg_folderPath cfg)) None [] = Some (Inl e)"
    and "sreq_jobId req \<noteq> Some newId"
  shows "\<exists>srv'. checkSyncStatus home newId t0 t1 s3 rx req srv = Some (Accepted newId, srv')
           \<and> jobs srv' newId = Some (newJob newId ''sync_check'' (length (localFiles req)) t0)
           \<and> timers srv' = timers srv"
  using assms by (simp add: checkSyncStatus_def Let_def catchBlock_other catchBlock_timers)

lemma uploadFolder_missing_config:
  assumes "req_config req = None" and "req_jobId req \<noteq> Some newId"
  shows "fst (uploadFolder home newId t0 t1 req world srv) = Accepted newId
       \<and> jobs (snd (uploadFolder home newId t0 t1 req world srv)) newId
            = Some (newJob newId ''upload'' (length (photoPaths req)) t0)
       \<and> timers (snd (uploadFolder home newId t0 t1 req world srv)) = timers srv"
  using assms by (simp add: uploadFolder_def uploadFolderTrace_def Let_def catchBlock_other catchBlock_timers)

text \<open>
  C8, at a tracked reconciliation whose first \<^verbatim>\<open>listObjectsV2\<close> call fails. The
  request body carries no \<^verbatim>\<open>jobId\<close> (the client learns the id only from the response),
  so the \<^verbatim>\<open>catch\<close> block finds nothing to fail: the job just created stays \<open>running\<close>,
  no message is broadcast and no timer is set. The two lemmas above say the same for
  every request whose body does not name the new id.
\<close>

theorem sync_listing_failure_leaves_job_running:
  "map_option (\<lambda>(r, srv). (r, map_option status (jobs srv ''job1''), sent srv, timers srv))
     (checkSyncStatus ''/home/u'' ''job1'' 0 5 (\<lambda>prefix token. Inl ''Access Denied'') (\<lambda>b. None)
        \<lparr> sreq_config = Some \<lparr> cfg_folderPath = ''/p/photos'', cfg_bucketName = ''bucket'' \<rparr>,
          localFiles = [], sreq_jobId = None \<rparr>
        \<lparr> jobs = Map.empty, sent = [], timers = [] \<rparr>)
   = Some (Accepted ''job1'', Some Running, [], [])"
  apply (simp add: checkSyncStatus_def Let_def)
  apply (subst listAll.simps)
  apply (simp add: catchBlock_def newJob_def)
  done

lemma fireTimers_no_timers: "timers srv = [] \<Longrightarrow> jobs (fireTimers t srv) = jobs srv"
  by (simp add: fireTimers_def)

lemma fireTimers_due:
  "(d, k) \<in> set (timers srv) \<Longrightarrow> d \<le> t \<Longrightarrow> jobs (fireTimers t srv) k = None"
  by (force simp: fireTimers_def)

lemma fireTimers_not_due:
  "\<forall>x \<in> set (timers srv). snd x = k \<longrightarrow> t < fst x \<Longrightarrow> jobs (fireTimers t srv) k = jobs srv k"
  by (auto simp: fireTimers_def)

text \<open>
  A job completed by the upload handler is in the registry, completed, until
  \<open>t1 + 30000\<close> and removed from then on.
\<close>

lemma fireTimers_completed_upload:
  assumes cfg: "req_config req = Some cfg" and fresh: "newId \<notin> snd ` set (timers srv)"
  shows "t1 + 30000 \<le> t \<Longrightarrow> jobs (fireTimers t (snd (uploadFolder home newId t0 t1 req world srv))) newId = None"
    and "t < t1 + 30000 \<Longrightarrow>
           map_option status (jobs (fireTimers t (snd (uploadFolder home newId t0 t1 req world srv))) newId)
             = Some Completed"
proof -
  from uploadFolder_batch[OF cfg, of home newId t0 t1 world srv]
  obtain j where j: "jobs (snd (uploadFolder home newId t0 t1 req world srv)) newId = Some j"
      "status j = Completed"
      "timers (snd (uploadFolder home newId t0 t1 req world srv)) = timers srv @ [(t1 + 30000, newId)]"
    by blast
  show "t1 + 30000 \<le> t \<Longrightarrow> jobs (fireTimers t (snd (uploadFolder home newId t0 t1 req world srv))) newId = None"
    using j(3) by (intro fireTimers_due[of "t1 + 30000"]) simp_all
  show "t < t1 + 30000 \<Longrightarrow>
           map_option status (jobs (fireTimers t (snd (uploadFolder home newId t0 t1 req world srv))) newId)
             = Some Completed"
    using j fresh by (subst fireTimers_not_due) (auto simp: image_iff)
qed


text \<open>
  C9, at a request that names a registered job \<open>a\<close> in its body and fails outside the
  loop (it carries no configuration). The \<^verbatim>\<open>catch\<close> block marks \<open>a\<close> as failed and sets
  no timer, so \<open>a\<close> is still registered, failed, 30000 ms after the handler has ended,
  and as long as no other handler completes it.
\<close>

theorem failed_job_is_never_retired:
  "map_option status (jobs (snd (uploadFolder ''/home/u'' ''b'' 7 9
        \<lparr> photoPaths = [], req_config = None, deleteAfterUpload = False, preserveStructure = True,
          req_folderPath = None, req_fileId = None, req_jobId = Some ''a'' \<rparr>
        (\<lambda>i. \<lparr> w_stat = Inr 10, w_relative = ''a.jpg'', w_now = 1, w_progress = [],
                w_read = None, w_upload = None, w_remove = None \<rparr>)
        \<lparr> jobs = [''a'' \<mapsto> newJob ''a'' ''upload'' 5 0], sent = [], timers = [] \<rparr>)) ''a'')
     = Some Failed
   \<and> timers (snd (uploadFolder ''/home/u'' ''b'' 7 9
        \<lparr> photoPaths = [], req_config = None, deleteAfterUpload = False, preserveStructure = True,
          req_folderPath = None, req_fileId = None, req_jobId = Some ''a'' \<rparr>
        (\<lambda>i. \<lparr> w_stat = Inr 10, w_relative = ''a.jpg'', w_now = 1, w_progress = [],
                w_read = None, w_upload = None, w_remove = None \<rparr>)
        \<lparr> jobs = [''a'' \<mapsto> newJob ''a'' ''upload'' 5 0], sent = [], timers = [] \<rparr>)) = []
   \<and> map_option status (jobs (fireTimers (9 + 30000) (snd (uploadFolder ''/home/u'' ''b'' 7 9
        \<lparr> photoPaths = [], req_config = None, deleteAfterUpload = False, preserveStructure = True,
          req_folderPath = None, req_fileId = None, req_jobId = Some ''a'' \<rparr>
        (\<lambda>i. \<lparr> w_stat = Inr 10, w_relative = ''a.jpg'', w_now = 1, w_progress = [],
                w_read = None, w_upload = None, w_remove = None \<rparr>)
        \<lparr> jobs = [''a'' \<mapsto> newJob ''a'' ''upload'' 5 0], sent = [], timers = [] \<rparr>))) ''a'')
     = Some Failed"
  by (simp add: uploadFolder_def uploadFolderTrace_def Let_def catchBlock_def fail_job_def newJob_def fireTimers_def)


subsection \<open>Listing and comparison\<close>

lemma stripKey_stripFun: "stripKey rx base key = map_option (\<lambda>g. g key) (stripFun rx base)"
  by (simp add: stripKey_def stripFun_def)

lemma set_setAdd: "set (setAdd x xs) = insert x (set xs)"
  by (auto simp: setAdd_def)

lemma distinct_setAdd: "distinct xs \<Longrightarrow> distinct (setAdd x xs)"
  by (auto simp: setAdd_def)

lemma addKeys_total:
  assumes "stripFun rx base = Some g"
  shows "\<exists>acc'. addKeys rx base ks acc = Inr acc' \<and> set acc' = set acc \<union> g ` set ks
           \<and> (distinct acc \<longrightarrow> distinct acc')"
proof (induction ks arbitrary: acc)
  case Nil
  show ?case by simp
next
  case (Cons k ks)
  obtain acc' where a: "addKeys rx base ks (setAdd (g k) acc) = Inr acc'"
      "set acc' = set (setAdd (g k) acc) \<union> g ` set ks"
      "distinct (setAdd (g k) acc) \<longrightarrow> distinct acc'"
    using Cons.IH[of "setAdd (g k) acc"] by blast
  show ?case using a assms by (auto simp: stripKey_stripFun set_setAdd distinct_setAdd)
qed

lemma listAll_pages:
  assumes g: "stripFun rx base = Some g"
  shows "servesPages s3 (base @ ''/'') token pages \<Longrightarrow>
         \<exists>ks. listAll s3 rx base token acc = Some (Inr ks)
              \<and> set ks = set acc \<union> g ` remoteKeys pages \<and> (distinct acc \<longrightarrow> distinct ks)"
proof (induction s3 "base @ ''/''" token pages arbitrary: acc rule: servesPages.induct)
  case (1 s3 token)
  then show ?case by simp
next
  case (2 s3 token pg)
  obtain acc' where a: "addKeys rx base (pageKeys pg) acc = Inr acc'"
     "set acc' = set acc \<union> g ` set (pageKeys pg)" "distinct acc \<longrightarrow> distinct acc'"
    using addKeys_total[OF g, of "pageKeys pg" acc] by blast
  from 2 a show ?case
    by (subst listAll.simps) (simp add: remoteKeys_def)
next
  case (3 s3 token pg pg' pgs)
  obtain acc' where a: "addKeys rx base (pageKeys pg) acc = Inr acc'"
     "set acc' = set acc \<union> g ` set (pageKeys pg)" "distinct acc \<longrightarrow> distinct acc'"
    using addKeys_total[OF g, of "pageKeys pg" acc] by blast
  from 3(2) have s: "s3 (base @ ''/'') token = Inr pg" "truthy (pg_next pg)"
     "servesPages s3 (base @ ''/'') (pg_next pg) (pg' # pgs)" by simp_all
  obtain ks where k: "listAll s3 rx base (pg_next pg) acc' = Some (Inr ks)"
     "set ks = set acc' \<union> g ` remoteKeys (pg' # pgs)" "distinct acc' \<longrightarrow> distinct ks"
    using 3(1)[OF s(3), of acc'] by blast
  have "listAll s3 rx base token acc = listAll s3 rx base (pg_next pg) acc'"
    by (subst listAll.simps) (simp add: s a)
  with k a show ?case by (auto simp: remoteKeys_def)
qed


lemma set_objSet:
  "(r, e) \<in> set (objSet k v obj) \<Longrightarrow> (r, e) \<in> set obj \<or> (r = k \<and> e = v)"
  unfolding objSet_def by (induction obj) (auto split: if_splits)

lemma map_of_objSet:
  "map_of (objSet k v obj) r =
     (if k = ''__proto__'' then map_of obj r else if r = k then Some v else map_of obj r)"
  by (simp add: objSet_def update_conv')

lemma compareSimple_entries:
  "(r, e) \<in> set (compareSimple base ks files acc) \<Longrightarrow>
     (r, e) \<in> set acc \<or> (\<exists>f \<in> set files. r = photo_relativePath f \<and> e = syncEntry base ks f)"
proof (induction files arbitrary: acc)
  case Nil
  then show ?case by simp
next
  case (Cons f fs)
  from Cons.prems have "(r, e) \<in> set (compareSimple base ks fs
      (objSet (photo_relativePath f) (syncEntry base ks f) acc))" by simp
  from Cons.IH[OF this] show ?case using set_objSet by fastforce
qed

lemma compareSimple_covers:
  "(\<exists>e. map_of acc r = Some e \<and> se_s3Key e = base @ ''/'' @ r \<and> se_inS3 e = (r \<in> set ks))
     \<or> (r \<noteq> ''__proto__'' \<and> r \<in> photo_relativePath ` set files) \<Longrightarrow>
   \<exists>e. map_of (compareSimple base ks files acc) r = Some e
       \<and> se_s3Key e = base @ ''/'' @ r \<and> se_inS3 e = (r \<in> set ks)"
proof (induction files arbitrary: acc)
  case Nil
  then show ?case by auto
next
  case (Cons f fs)
  let ?acc = "objSet (photo_relativePath f) (syncEntry base ks f) acc"
  have "(\<exists>e. map_of ?acc r = Some e \<and> se_s3Key e = base @ ''/'' @ r \<and> se_inS3 e = (r \<in> set ks))
     \<or> (r \<noteq> ''__proto__'' \<and> r \<in> photo_relativePath ` set fs)"
    using Cons.prems by (auto simp: map_of_objSet syncEntry_def)
  from Cons.IH[OF this] show ?case by simp
qed

lemma compareTracked_fst:
  "fst (compareTracked base ks i files (acc, h)) = compareSimple base ks files acc"
  by (induction files arbitrary: i acc h) simp_all

lemma timestamped_key_differs:
  "X @ ''_'' @ posix_basename r \<noteq> r"
proof
  assume eq: "X @ ''_'' @ posix_basename r = r"
  define b where "b = posix_basename r"
  have nb: "CHR ''/'' \<notin> set b"
    unfolding b_def posix_basename_def by (auto dest: set_takeWhileD)
  have "r = X @ ''_'' @ b" using eq by (simp only: b_def)
  then have "rev r = rev (X @ ''_'' @ b)" by (rule arg_cong)
  then have rr: "rev r = rev b @ CHR ''_'' # rev X" by simp
  have dw: "dropWhile (\<lambda>c. c = CHR ''/'') (rev r) = rev r"
    unfolding rr using nb by (cases "rev b") auto
  have "takeWhile (\<lambda>c. c \<noteq> CHR ''/'') (rev r) = rev b @ CHR ''_'' # takeWhile (\<lambda>c. c \<noteq> CHR ''/'') (rev X)"
    unfolding rr using nb by (subst takeWhile_append2) auto
  then have "rev b = rev b @ CHR ''_'' # takeWhile (\<lambda>c. c \<noteq> CHR ''/'') (rev X)"
    using dw by (simp add: b_def posix_basename_def)
  then have "length (rev b) = length (rev b @ CHR ''_'' # takeWhile (\<lambda>c. c \<noteq> CHR ''/'') (rev X))"
    by (rule arg_cong)
  then have "length b > length b" by simp
  then show False by simp
qed


lemma checkSyncStatus_success:
  assumes cfg: "sreq_config req = Some cfg"
    and ls: "listAll s3 rx (baseFolderName home (cfg_folderPath cfg)) None [] = Some (Inr ks)"
  defines "syncStatus \<equiv> compareSimple (baseFolderName home (cfg_folderPath cfg)) ks (localFiles req) []"
  shows "checkSyncStatusSimple home s3 rx req = Some (SyncStatusResponse syncStatus (length ks))"
    and "\<exists>srv'. checkSyncStatus home newId t0 t1 s3 rx req srv = Some (Accepted newId, srv')
           \<and> SyncStatusResult newId syncStatus (length ks) \<in> set (sent srv')
           \<and> map_option status (jobs srv' newId) = Some Completed
           \<and> timers srv' = timers srv @ [(t1 + 30000, newId)]"
proof -
  show "checkSyncStatusSimple home s3 rx req = Some (SyncStatusResponse syncStatus (length ks))"
    using cfg ls by (simp add: checkSyncStatusSimple_def Let_def syncStatus_def)
  obtain st h where c: "compareTracked (baseFolderName home (cfg_folderPath cfg)) ks 0 (localFiles req)
      ([], \<lparr> h_job = newJob newId ''sync_check'' (length (localFiles req)) t0, h_results = [], h_sent = [], h_ops = [] \<rparr>) = (st, h)"
    by (cases "compareTracked (baseFolderName home (cfg_folderPath cfg)) ks 0 (localFiles req)
      ([], \<lparr> h_job = newJob newId ''sync_check'' (length (localFiles req)) t0, h_results = [], h_sent = [], h_ops = [] \<rparr>)") auto
  have "st = syncStatus"
    using compareTracked_fst[of "baseFolderName home (cfg_folderPath cfg)" ks 0 "localFiles req" "[]"
        "\<lparr> h_job = newJob newId ''sync_check'' (length (localFiles req)) t0, h_results = [], h_sent = [], h_ops = [] \<rparr>"] c
    by (simp add: syncStatus_def)
  then show "\<exists>srv'. checkSyncStatus home newId t0 t1 s3 rx req srv = Some (Accepted newId, srv')
           \<and> SyncStatusResult newId syncStatus (length ks) \<in> set (sent srv')
           \<and> map_option status (jobs srv' newId) = Some Completed
           \<and> timers srv' = timers srv @ [(t1 + 30000, newId)]"
    using cfg ls c by (simp add: checkSyncStatus_def Let_def jobCall_def complete_job_def)
qed

lemma compareSimple_entry:
  assumes "(r, e) \<in> set (compareSimple base ks files [])"
  shows "se_inS3 e = (r \<in> set ks) \<and> se_s3Key e = base @ ''/'' @ r \<and> photo_relativePath (se_file e) = r"
proof -
  from compareSimple_entries[OF assms]
  obtain f where "r = photo_relativePath f" "e = syncEntry base ks f" by auto
  then show ?thesis by (simp add: syncEntry_def)
qed



lemma stripFun_literal_stripsPrefix:
  assumes "list_all (\<lambda>c. c \<notin> set regexMeta) base" and "stripFun rx base = Some g"
  shows "stripsPrefix g"
proof -
  have g: "g = (\<lambda>key. if prefix (base @ ''/'') key then drop (length base + 1) key else key)"
    using assms by (simp add: stripFun_def)
  show ?thesis unfolding stripsPrefix_def
  proof
    fix key
    show "g key = key \<or> (\<exists>m. key = m @ g key \<and> m \<noteq> [] \<and> last m = CHR ''/'')"
    proof (cases "prefix (base @ ''/'') key")
      case False
      then show ?thesis by (simp add: g)
    next
      case True
      then obtain rest where "key = (base @ ''/'') @ rest" by (auto simp: prefix_def)
      then have "key = (base @ ''/'') @ g key \<and> base @ ''/'' \<noteq> [] \<and> last (base @ ''/'') = CHR ''/''"
        by (simp add: g)
      then show ?thesis by blast
    qed
  qed
qed

lemma stripsPrefix_timestamped:
  assumes "stripsPrefix g"
  shows "g (P @ ''_'' @ posix_basename r) \<noteq> r"
proof
  assume eq: "g (P @ ''_'' @ posix_basename r) = r"
  let ?f = "posix_basename r"
  have len: "length ?f \<le> length r"
    unfolding posix_basename_def
    by (metis length_rev length_takeWhile_le length_dropWhile_le order_trans)
  from assms have "g (P @ ''_'' @ ?f) = P @ ''_'' @ ?f
      \<or> (\<exists>m. P @ ''_'' @ ?f = m @ g (P @ ''_'' @ ?f) \<and> m \<noteq> [] \<and> last m = CHR ''/'')"
    unfolding stripsPrefix_def by blast
  then show False
  proof
    assume "g (P @ ''_'' @ ?f) = P @ ''_'' @ ?f"
    with eq have "P @ ''_'' @ ?f = r" by simp
    then show False using timestamped_key_differs by blast
  next
    assume "\<exists>m. P @ ''_'' @ ?f = m @ g (P @ ''_'' @ ?f) \<and> m \<noteq> [] \<and> last m = CHR ''/''"
    then obtain m where m: "(P @ ''_'') @ ?f = m @ r" "m \<noteq> []" "last m = CHR ''/''"
      using eq by auto
    from m(1) have "\<exists>us. (P @ ''_'' = m @ us \<and> us @ ?f = r) \<or> ((P @ ''_'') @ us = m \<and> ?f = us @ r)"
      by (simp only: append_eq_append_conv2)
    then obtain us where us: "(P @ ''_'' = m @ us \<and> us @ ?f = r) \<or> ((P @ ''_'') @ us = m \<and> ?f = us @ r)"
      by blast
    then show False
    proof
      assume a: "P @ ''_'' = m @ us \<and> us @ ?f = r"
      show False
      proof (cases "us = []")
        case True
        with a have "m = P @ ''_''" by simp
        with m(3) show False by simp
      next
        case False
        from a have "last (m @ us) = CHR ''_''" by (metis last_snoc)
        with False have "last us = CHR ''_''" by simp
        with False obtain us' where "us = us' @ ''_''" by (metis append_butlast_last_id)
        with a have "us' @ ''_'' @ ?f = r" by simp
        then show False using timestamped_key_differs by blast
      qed
    next
      assume b: "(P @ ''_'') @ us = m \<and> ?f = us @ r"
      then have "length ?f = length us + length r" by (metis length_append)
      with len have "us = []" by simp
      with b have "m = P @ ''_''" by simp
      with m(3) show False by simp
    qed
  qed
qed


lemma own_timestamped_keys_ignored:
  assumes "stripsPrefix g"
  shows "(r \<in> g ` K) = (r \<in> g ` {k \<in> K. \<forall>ts. k \<noteq> s3KeyFor False base r ts (posix_basename r)})"
proof
  assume "r \<in> g ` K"
  then obtain k where k: "k \<in> K" "r = g k" by auto
  have "k \<noteq> s3KeyFor False base r ts (posix_basename r)" for ts
  proof
    assume "k = s3KeyFor False base r ts (posix_basename r)"
    then have "k = (base @ ''/'' @ showNat ts) @ ''_'' @ posix_basename r" by (simp add: s3KeyFor_def)
    with k(2) show False
      using stripsPrefix_timestamped[OF assms, of "base @ ''/'' @ showNat ts" r] by simp
  qed
  with k show "r \<in> g ` {k \<in> K. \<forall>ts. k \<noteq> s3KeyFor False base r ts (posix_basename r)}" by blast
next
  assume "r \<in> g ` {k \<in> K. \<forall>ts. k \<noteq> s3KeyFor False base r ts (posix_basename r)}"
  then show "r \<in> g ` K" by blast
qed


text \<open>
  C10. In both modes every entry of the result, filed under a relative path \<open>r\<close>,
  carries the key \<open>base/r\<close>, whether or not the file is present, and its presence flag
  says exactly whether \<open>r\<close> is one of the stripped remote keys; every local file gets such
  an entry (the key \<^verbatim>\<open>__proto__\<close> creates none). When the pattern removes nothing or a
  prefix that ends in a slash, as it does for every folder name without metacharacters
  (lemma \<open>stripFun_literal_stripsPrefix\<close>), no timestamped key
  \<open>base/<time>_<filename>\<close> of the file strips to \<open>r\<close>: the flag is decided by the other
  remote keys alone, and a file whose remote copies all lie under its timestamped keys
  is reported as absent. A remote key of another form that strips to \<open>r\<close> makes the flag
  true.
\<close>

theorem reconciliation_entries:
  assumes cfg: "sreq_config req = Some cfg"
    and pages: "servesPages s3 (baseFolderName home (cfg_folderPath cfg) @ ''/'') None pages"
    and strip: "stripFun rx (baseFolderName home (cfg_folderPath cfg)) = Some g"
  shows "\<exists>syncStatus n srv'.
           checkSyncStatusSimple home s3 rx req = Some (SyncStatusResponse syncStatus n)
         \<and> checkSyncStatus home newId t0 t1 s3 rx req srv = Some (Accepted newId, srv')
         \<and> SyncStatusResult newId syncStatus n \<in> set (sent srv')
         \<and> (\<forall>(r, e) \<in> set syncStatus.
                se_s3Key e = baseFolderName home (cfg_folderPath cfg) @ ''/'' @ r
              \<and> photo_relativePath (se_file e) = r
              \<and> se_inS3 e = (r \<in> g ` remoteKeys pages))
         \<and> (\<forall>f \<in> set (localFiles req). photo_relativePath f \<noteq> ''__proto__'' \<longrightarrow>
                (\<exists>e. map_of syncStatus (photo_relativePath f) = Some e
                   \<and> se_s3Key e = baseFolderName home (cfg_folderPath cfg) @ ''/'' @ photo_relativePath f
                   \<and> se_inS3 e = (photo_relativePath f \<in> g ` remoteKeys pages)))
         \<and> (stripsPrefix g \<longrightarrow>
              (\<forall>(r, e) \<in> set syncStatus.
                 (\<forall>ts. g (s3KeyFor False (baseFolderName home (cfg_folderPath cfg)) r ts (posix_basename r)) \<noteq> r)
               \<and> se_inS3 e =
                   (r \<in> g ` {k \<in> remoteKeys pages.
                              \<forall>ts. k \<noteq> s3KeyFor False (baseFolderName home (cfg_folderPath cfg)) r ts
                                          (posix_basename r)})
               \<and> ((\<forall>k \<in> remoteKeys pages.
                      \<exists>ts. k = s3KeyFor False (baseFolderName home (cfg_folderPath cfg)) r ts
                                 (posix_basename r))
                  \<longrightarrow> \<not> se_inS3 e)))"
proof -
  let ?base = "baseFolderName home (cfg_folderPath cfg)"
  obtain ks where ks: "listAll s3 rx ?base None [] = Some (Inr ks)" "set ks = g ` remoteKeys pages"
    using listAll_pages[OF strip pages, of "[]"] by auto
  let ?st = "compareSimple ?base ks (localFiles req) []"
  note ok1 = checkSyncStatus_success(1)[OF cfg ks(1)]
  obtain srv' where ok2: "checkSyncStatus home newId t0 t1 s3 rx req srv = Some (Accepted newId, srv')"
      "SyncStatusResult newId ?st (length ks) \<in> set (sent srv')"
    using checkSyncStatus_success(2)[OF cfg ks(1)] by blast
  have a: "\<forall>(r, e) \<in> set ?st. se_s3Key e = ?base @ ''/'' @ r \<and> photo_relativePath (se_file e) = r
              \<and> se_inS3 e = (r \<in> g ` remoteKeys pages)"
  proof (clarify)
    fix r e assume "(r, e) \<in> set ?st"
    from compareSimple_entry[OF this]
    show "se_s3Key e = ?base @ ''/'' @ r \<and> photo_relativePath (se_file e) = r
              \<and> se_inS3 e = (r \<in> g ` remoteKeys pages)"
      by (simp add: ks(2))
  qed
  have b: "\<forall>f \<in> set (localFiles req). photo_relativePath f \<noteq> ''__proto__'' \<longrightarrow>
                (\<exists>e. map_of ?st (photo_relativePath f) = Some e
                   \<and> se_s3Key e = ?base @ ''/'' @ photo_relativePath f
                   \<and> se_inS3 e = (photo_relativePath f \<in> g ` remoteKeys pages))"
  proof (intro ballI impI)
    fix f assume "f \<in> set (localFiles req)" "photo_relativePath f \<noteq> ''__proto__''"
    then have "photo_relativePath f \<noteq> ''__proto__'' \<and> photo_relativePath f \<in> photo_relativePath ` set (localFiles req)"
      by simp
    from compareSimple_covers[of "[]" "photo_relativePath f" ?base ks "localFiles req", OF disjI2, OF this]
    show "\<exists>e. map_of ?st (photo_relativePath f) = Some e
                   \<and> se_s3Key e = ?base @ ''/'' @ photo_relativePath f
                   \<and> se_inS3 e = (photo_relativePath f \<in> g ` remoteKeys pages)"
      by (simp add: ks(2))
  qed
  have c: "stripsPrefix g \<longrightarrow>
              (\<forall>(r, e) \<in> set ?st.
                 (\<forall>ts. g (s3KeyFor False ?base r ts (posix_basename r)) \<noteq> r)
               \<and> se_inS3 e =
                   (r \<in> g ` {k \<in> remoteKeys pages. \<forall>ts. k \<noteq> s3KeyFor False ?base r ts (posix_basename r)})
               \<and> ((\<forall>k \<in> remoteKeys pages. \<exists>ts. k = s3KeyFor False ?base r ts (posix_basename r))
                  \<longrightarrow> \<not> se_inS3 e))"
  proof (intro impI, clarify)
    fix r e
    assume lit: "stripsPrefix g" and mem: "(r, e) \<in> set ?st"
    have c1: "g (s3KeyFor False ?base r ts (posix_basename r)) \<noteq> r" for ts
      using stripsPrefix_timestamped[OF lit, of "?base @ ''/'' @ showNat ts" r]
      by (simp add: s3KeyFor_def)
    from a mem have fl: "se_inS3 e = (r \<in> g ` remoteKeys pages)" by auto
    have c2: "se_inS3 e =
                (r \<in> g ` {k \<in> remoteKeys pages. \<forall>ts. k \<noteq> s3KeyFor False ?base r ts (posix_basename r)})"
      unfolding fl by (rule own_timestamped_keys_ignored[OF lit])
    have c3: "(\<forall>k \<in> remoteKeys pages. \<exists>ts. k = s3KeyFor False ?base r ts (posix_basename r))
                  \<longrightarrow> \<not> se_inS3 e"
      unfolding c2 by blast
    from c1 c2 c3
    show "(\<forall>ts. g (s3KeyFor False ?base r ts (posix_basename r)) \<noteq> r)
               \<and> se_inS3 e =
                   (r \<in> g ` {k \<in> remoteKeys pages. \<forall>ts. k \<noteq> s3KeyFor False ?base r ts (posix_basename r)})
               \<and> ((\<forall>k \<in> remoteKeys pages. \<exists>ts. k = s3KeyFor False ?base r ts (posix_basename r))
                  \<longrightarrow> \<not> se_inS3 e)"
      by blast
  qed
  show ?thesis
    apply (rule exI[of _ ?st])
    apply (rule exI[of _ "length ks"])
    apply (rule exI[of _ srv'])
    using ok1 ok2 a b c by simp
qed


lemma example_base: "baseFolderName ''/home/u'' (cfg_folderPath exampleConfig) = ''photos''"
  by (simp add: exampleConfig_def baseFolderName_def expandTilde_def posix_basename_def)

lemma example_serves: "servesPages exampleStore ''photos/'' None examplePages"
  by (simp add: examplePages_def exampleStore_def)

lemma example_strip: "stripFun (\<lambda>b. None) ''photos'' = Some exampleStrip"
  by (simp add: stripFun_def regexMeta_def exampleStrip_def fun_eq_iff)

lemma example_listing:
  "listAll exampleStore (\<lambda>b. None) ''photos'' None []
     = Some (Inr [''a.jpg'', ''trip/b.jpg'', ''1700000000123_c.jpg''])"
  apply (subst listAll.simps)
  apply (simp add: exampleStore_def examplePages_def pageKeys_def stripKey_def regexMeta_def setAdd_def)
  apply (subst listAll.simps)
  apply (simp add: exampleStore_def examplePages_def pageKeys_def stripKey_def regexMeta_def setAdd_def)
  apply (subst listAll.simps)
  apply (simp add: exampleStore_def examplePages_def pageKeys_def stripKey_def regexMeta_def setAdd_def)
  done


lemma small_listing:
  "listAll (exampleSmallStore ks) rx ''photos'' None [] =
     Some (case addKeys rx ''photos'' ks [] of Inl e \<Rightarrow> Inl e | Inr acc \<Rightarrow> Inr acc)"
  apply (subst listAll.simps)
  apply (simp add: exampleSmallStore_def pageKeys_def split: sum.splits)
  done

lemma small_serves:
  "servesPages (exampleSmallStore ks) ''photos/'' None [\<lparr> pg_contents = Some ks, pg_next = None \<rparr>]"
  by (simp add: exampleSmallStore_def)

theorem reconciliation_entries_witness:
  "sreq_config exampleRequest = Some exampleConfig
   \<and> servesPages exampleStore (baseFolderName ''/home/u'' (cfg_folderPath exampleConfig) @ ''/'') None examplePages
   \<and> stripFun (\<lambda>b. None) (baseFolderName ''/home/u'' (cfg_folderPath exampleConfig)) = Some exampleStrip
   \<and> stripsPrefix exampleStrip
   \<and> checkSyncStatusSimple ''/home/u'' exampleStore (\<lambda>b. None) exampleRequest
       = Some (SyncStatusResponse
           [(''a.jpg'', \<lparr> se_file = examplePhoto 1 ''a.jpg'' ''a.jpg'', se_inS3 = True, se_s3Key = ''photos/a.jpg'' \<rparr>),
            (''trip/b.jpg'', \<lparr> se_file = examplePhoto 2 ''b.jpg'' ''trip/b.jpg'', se_inS3 = True,
                               se_s3Key = ''photos/trip/b.jpg'' \<rparr>),
            (''c.jpg'', \<lparr> se_file = examplePhoto 3 ''c.jpg'' ''c.jpg'', se_inS3 = False, se_s3Key = ''photos/c.jpg'' \<rparr>)]
           3)
   \<and> (\<exists>syncStatus n srv'.
         checkSyncStatusSimple ''/home/u'' exampleStore (\<lambda>b. None) exampleRequest
           = Some (SyncStatusResponse syncStatus n)
       \<and> checkSyncStatus ''/home/u'' ''job1'' 0 5 exampleStore (\<lambda>b. None) exampleRequest emptyServer
           = Some (Accepted ''job1'', srv')
       \<and> SyncStatusResult ''job1'' syncStatus n \<in> set (sent srv')
       \<and> (\<forall>(r, e) \<in> set syncStatus.
              se_s3Key e = ''photos'' @ ''/'' @ r \<and> se_inS3 e = (r \<in> exampleStrip ` remoteKeys examplePages)))
   \<and> sreq_config (exampleSingle ''c.jpg'') = Some exampleConfig
   \<and> servesPages (exampleSmallStore [''photos/1700000000123_c.jpg'', ''photos/1700000000456_c.jpg''])
        (baseFolderName ''/home/u'' (cfg_folderPath exampleConfig) @ ''/'') None
        [\<lparr> pg_contents = Some [''photos/1700000000123_c.jpg'', ''photos/1700000000456_c.jpg''],
            pg_next = None \<rparr>]
   \<and> remoteKeys [\<lparr> pg_contents = Some [''photos/1700000000123_c.jpg'', ''photos/1700000000456_c.jpg''],
                     pg_next = None \<rparr>]
       = {s3KeyFor False ''photos'' ''c.jpg'' 1700000000123 (posix_basename ''c.jpg''),
          s3KeyFor False ''photos'' ''c.jpg'' 1700000000456 (posix_basename ''c.jpg'')}
   \<and> (\<exists>syncStatus n srv' e.
         checkSyncStatusSimple ''/home/u''
             (exampleSmallStore [''photos/1700000000123_c.jpg'', ''photos/1700000000456_c.jpg''])
             (\<lambda>b. None) (exampleSingle ''c.jpg'')
           = Some (SyncStatusResponse syncStatus n)
       \<and> checkSyncStatus ''/home/u'' ''job1'' 0 5
             (exampleSmallStore [''photos/1700000000123_c.jpg'', ''photos/1700000000456_c.jpg''])
             (\<lambda>b. None) (exampleSingle ''c.jpg'') emptyServer
           = Some (Accepted ''job1'', srv')
       \<and> SyncStatusResult ''job1'' syncStatus n \<in> set (sent srv')
       \<and> map_of syncStatus ''c.jpg'' = Some e
       \<and> se_s3Key e = ''photos/c.jpg'' \<and> \<not> se_inS3 e)"
proof -
  let ?own = "[''photos/1700000000123_c.jpg'', ''photos/1700000000456_c.jpg'']"
  let ?pg = "\<lparr> pg_contents = Some ?own, pg_next = None \<rparr>"
  have h1: "sreq_config exampleRequest = Some exampleConfig" by (simp add: exampleRequest_def)
  have h2: "servesPages exampleStore (baseFolderName ''/home/u'' (cfg_folderPath exampleConfig) @ ''/'') None examplePages"
    using example_serves by (simp add: example_base)
  have h3: "stripFun (\<lambda>b. None) (baseFolderName ''/home/u'' (cfg_folderPath exampleConfig)) = Some exampleStrip"
    using example_strip by (simp add: example_base)
  have lit: "stripsPrefix exampleStrip"
    by (rule stripFun_literal_stripsPrefix[OF _ example_strip]) (simp add: regexMeta_def)
  have h4: "checkSyncStatusSimple ''/home/u'' exampleStore (\<lambda>b. None) exampleRequest
       = Some (SyncStatusResponse
           [(''a.jpg'', \<lparr> se_file = examplePhoto 1 ''a.jpg'' ''a.jpg'', se_inS3 = True, se_s3Key = ''photos/a.jpg'' \<rparr>),
            (''trip/b.jpg'', \<lparr> se_file = examplePhoto 2 ''b.jpg'' ''trip/b.jpg'', se_inS3 = True,
                               se_s3Key = ''photos/trip/b.jpg'' \<rparr>),
            (''c.jpg'', \<lparr> se_file = examplePhoto 3 ''c.jpg'' ''c.jpg'', se_inS3 = False, se_s3Key = ''photos/c.jpg'' \<rparr>)]
           3)"
    by (simp add: checkSyncStatusSimple_def h1 example_base example_listing exampleRequest_def
        objSet_def syncEntry_def examplePhoto_def)
  from reconciliation_entries [OF h1 h2 h3, of "''job1''" 0 5 emptyServer]
  obtain syncStatus n srv' where r:
    "checkSyncStatusSimple ''/home/u'' exampleStore (\<lambda>b. None) exampleRequest = Some (SyncStatusResponse syncStatus n)"
    "checkSyncStatus ''/home/u'' ''job1'' 0 5 exampleStore (\<lambda>b. None) exampleRequest emptyServer = Some (Accepted ''job1'', srv')"
    "SyncStatusResult ''job1'' syncStatus n \<in> set (sent srv')"
    "\<forall>(r, e) \<in> set syncStatus.
                se_s3Key e = baseFolderName ''/home/u'' (cfg_folderPath exampleConfig) @ ''/'' @ r
              \<and> photo_relativePath (se_file e) = r
              \<and> se_inS3 e = (r \<in> exampleStrip ` remoteKeys examplePages)"
    by blast
  from r(4) have r4: "\<forall>(r, e) \<in> set syncStatus.
              se_s3Key e = ''photos'' @ ''/'' @ r \<and> se_inS3 e = (r \<in> exampleStrip ` remoteKeys examplePages)"
    by (auto simp: example_base)
  have first: "\<exists>syncStatus n srv'.
         checkSyncStatusSimple ''/home/u'' exampleStore (\<lambda>b. None) exampleRequest
           = Some (SyncStatusResponse syncStatus n)
       \<and> checkSyncStatus ''/home/u'' ''job1'' 0 5 exampleStore (\<lambda>b. None) exampleRequest emptyServer
           = Some (Accepted ''job1'', srv')
       \<and> SyncStatusResult ''job1'' syncStatus n \<in> set (sent srv')
       \<and> (\<forall>(r, e) \<in> set syncStatus.
              se_s3Key e = ''photos'' @ ''/'' @ r \<and> se_inS3 e = (r \<in> exampleStrip ` remoteKeys examplePages))"
    using r(1,2,3) r4 by blast
  have g1: "sreq_config (exampleSingle ''c.jpg'') = Some exampleConfig" by (simp add: exampleSingle_def)
  have g2: "servesPages (exampleSmallStore ?own)
        (baseFolderName ''/home/u'' (cfg_folderPath exampleConfig) @ ''/'') None [?pg]"
    using small_serves[of ?own] by (simp add: example_base)
  have keys: "remoteKeys [?pg]
       = {s3KeyFor False ''photos'' ''c.jpg'' 1700000000123 (posix_basename ''c.jpg''),
          s3KeyFor False ''photos'' ''c.jpg'' 1700000000456 (posix_basename ''c.jpg'')}"
    by (simp add: remoteKeys_def pageKeys_def s3KeyFor_def posix_basename_def showNat.simps digitChar_def)
  have own: "\<forall>k \<in> remoteKeys [?pg].
               \<exists>ts. k = s3KeyFor False (baseFolderName ''/home/u'' (cfg_folderPath exampleConfig)) ''c.jpg'' ts
                          (posix_basename ''c.jpg'')"
    unfolding keys example_base by blast
  from reconciliation_entries [OF g1 g2 h3, of "''job1''" 0 5 emptyServer]
  obtain st m srv2 where q:
    "checkSyncStatusSimple ''/home/u'' (exampleSmallStore ?own) (\<lambda>b. None) (exampleSingle ''c.jpg'')
       = Some (SyncStatusResponse st m)"
    "checkSyncStatus ''/home/u'' ''job1'' 0 5 (exampleSmallStore ?own) (\<lambda>b. None) (exampleSingle ''c.jpg'')
       emptyServer = Some (Accepted ''job1'', srv2)"
    "SyncStatusResult ''job1'' st m \<in> set (sent srv2)"
    "\<forall>f \<in> set (localFiles (exampleSingle ''c.jpg'')). photo_relativePath f \<noteq> ''__proto__'' \<longrightarrow>
        (\<exists>e. map_of st (photo_relativePath f) = Some e
           \<and> se_s3Key e = baseFolderName ''/home/u'' (cfg_folderPath exampleConfig) @ ''/'' @ photo_relativePath f
           \<and> se_inS3 e = (photo_relativePath f \<in> exampleStrip ` remoteKeys [?pg]))"
    "stripsPrefix exampleStrip \<longrightarrow>
        (\<forall>(r, e) \<in> set st.
           (\<forall>ts. exampleStrip (s3KeyFor False (baseFolderName ''/home/u'' (cfg_folderPath exampleConfig)) r ts
                     (posix_basename r)) \<noteq> r)
         \<and> se_inS3 e =
             (r \<in> exampleStrip ` {k \<in> remoteKeys [?pg].
                        \<forall>ts. k \<noteq> s3KeyFor False (baseFolderName ''/home/u'' (cfg_folderPath exampleConfig)) r ts
                                    (posix_basename r)})
         \<and> ((\<forall>k \<in> remoteKeys [?pg].
                \<exists>ts. k = s3KeyFor False (baseFolderName ''/home/u'' (cfg_folderPath exampleConfig)) r ts
                           (posix_basename r))
            \<longrightarrow> \<not> se_inS3 e))"
    by blast
  from q(4) obtain e where e: "map_of st ''c.jpg'' = Some e" "se_s3Key e = ''photos/c.jpg''"
    by (auto simp: exampleSingle_def examplePhoto_def example_base)
  from e(1) have "(''c.jpg'', e) \<in> set st" by (rule map_of_SomeD)
  with q(5) lit own have ne: "\<not> se_inS3 e" by blast
  have second: "\<exists>syncStatus n srv' e.
         checkSyncStatusSimple ''/home/u'' (exampleSmallStore ?own) (\<lambda>b. None) (exampleSingle ''c.jpg'')
           = Some (SyncStatusResponse syncStatus n)
       \<and> checkSyncStatus ''/home/u'' ''job1'' 0 5 (exampleSmallStore ?own) (\<lambda>b. None)
             (exampleSingle ''c.jpg'') emptyServer
           = Some (Accepted ''job1'', srv')
       \<and> SyncStatusResult ''job1'' syncStatus n \<in> set (sent srv')
       \<and> map_of syncStatus ''c.jpg'' = Some e
       \<and> se_s3Key e = ''photos/c.jpg'' \<and> \<not> se_inS3 e"
    using q(1,2,3) e ne by blast
  from h1 h2 h3 lit h4 first g1 g2 keys second show ?thesis by blast
qed

text \<open>
  A file with a timestamped copy can be reported as present. The folder \<^verbatim>\<open>photos\<close> holds
  \<^verbatim>\<open>7_a.jpg\<close>; the store holds its timestamped copy \<^verbatim>\<open>photos/99_7_a.jpg\<close> and the key
  \<^verbatim>\<open>photos/7_a.jpg\<close>, which is the timestamped key of a file \<^verbatim>\<open>a.jpg\<close> uploaded at time 7.
  The second key strips to the relative path of the first file.
\<close>

theorem timestamped_copy_reported_present_counterexample:
  "checkSyncStatusSimple ''/home/u'' (exampleSmallStore [''photos/99_7_a.jpg'', ''photos/7_a.jpg''])
       (\<lambda>b. None) (exampleSingle ''7_a.jpg'')
     = Some (SyncStatusResponse
         [(''7_a.jpg'', \<lparr> se_file = examplePhoto 1 ''7_a.jpg'' ''7_a.jpg'', se_inS3 = True,
                          se_s3Key = ''photos/7_a.jpg'' \<rparr>)] 2)
   \<and> (\<exists>srv'. checkSyncStatus ''/home/u'' ''job1'' 0 5
                 (exampleSmallStore [''photos/99_7_a.jpg'', ''photos/7_a.jpg'']) (\<lambda>b. None)
                 (exampleSingle ''7_a.jpg'') emptyServer = Some (Accepted ''job1'', srv')
            \<and> SyncStatusResult ''job1''
                 [(''7_a.jpg'', \<lparr> se_file = examplePhoto 1 ''7_a.jpg'' ''7_a.jpg'', se_inS3 = True,
                                  se_s3Key = ''photos/7_a.jpg'' \<rparr>)] 2 \<in> set (sent srv'))
   \<and> s3KeyFor False ''photos'' ''7_a.jpg'' 99 (posix_basename (photo_path (examplePhoto 1 ''7_a.jpg'' ''7_a.jpg'')))
       = ''photos/99_7_a.jpg''
   \<and> s3KeyFor False ''photos'' ''a.jpg'' 7 (posix_basename (photo_path (examplePhoto 2 ''a.jpg'' ''a.jpg'')))
       = ''photos/7_a.jpg''"
proof -
  have h1: "sreq_config (exampleSingle ''7_a.jpg'') = Some exampleConfig" by (simp add: exampleSingle_def)
  have ls: "listAll (exampleSmallStore [''photos/99_7_a.jpg'', ''photos/7_a.jpg'']) (\<lambda>b. None)
              (baseFolderName ''/home/u'' (cfg_folderPath exampleConfig)) None []
              = Some (Inr [''99_7_a.jpg'', ''7_a.jpg''])"
    by (simp add: example_base small_listing stripKey_def regexMeta_def setAdd_def)
  have cs: "compareSimple (baseFolderName ''/home/u'' (cfg_folderPath exampleConfig)) [''99_7_a.jpg'', ''7_a.jpg'']
              (localFiles (exampleSingle ''7_a.jpg'')) []
            = [(''7_a.jpg'', \<lparr> se_file = examplePhoto 1 ''7_a.jpg'' ''7_a.jpg'', se_inS3 = True,
                          se_s3Key = ''photos/7_a.jpg'' \<rparr>)]"
    by (simp add: example_base exampleSingle_def objSet_def syncEntry_def examplePhoto_def)
  have len: "length [''99_7_a.jpg'', ''7_a.jpg''] = 2" by simp
  note s1 = checkSyncStatus_success(1)[OF h1 ls, unfolded cs len]
  note s2 = checkSyncStatus_success(2)[OF h1 ls, where newId = "''job1''" and ?t0.0 = 0 and ?t1.0 = 5
      and srv = emptyServer, unfolded cs len]
  have k1: "s3KeyFor False ''photos'' ''7_a.jpg'' 99 (posix_basename (photo_path (examplePhoto 1 ''7_a.jpg'' ''7_a.jpg'')))
       = ''photos/99_7_a.jpg''"
    by (simp add: s3KeyFor_def examplePhoto_def posix_basename_def showNat.simps digitChar_def)
  have k2: "s3KeyFor False ''photos'' ''a.jpg'' 7 (posix_basename (photo_path (examplePhoto 2 ''a.jpg'' ''a.jpg'')))
       = ''photos/7_a.jpg''"
    by (simp add: s3KeyFor_def examplePhoto_def posix_basename_def showNat.simps digitChar_def)
  from s1 s2 k1 k2 show ?thesis by blast
qed


subsection \<open>The scanner's aggregates\<close>

lemma update_fresh: "k \<notin> fst ` set al \<Longrightarrow> AList.update k v al = al @ [(k, v)]"
  by (induction al) auto

lemma aggregatesOK_sel:
  "aggregatesOK fd =
     (fd_photoCount fd = length (fd_photos fd) + sum_list (map (\<lambda>x. fd_photoCount (snd x)) (fd_subfolders fd))
      \<and> fd_totalSize fd = sum_list (map photo_size (fd_photos fd))
            + sum_list (map (\<lambda>x. fd_totalSize (snd x)) (fd_subfolders fd))
      \<and> (\<forall>x \<in> set (fd_subfolders fd). aggregatesOK (snd x)))"
  by (cases fd) simp

lemma aggregatesOK_newFolder: "aggregatesOK (newFolder d r)"
  by (simp add: newFolder_def)

lemma aggregatesOK_addPhoto: "aggregatesOK fd \<Longrightarrow> aggregatesOK (addPhoto p fd)"
  by (simp add: aggregatesOK_sel[of fd] aggregatesOK_sel[of "addPhoto p fd"] addPhoto_def)

lemma aggregatesOK_addSubfolder:
  assumes "aggregatesOK fd" "aggregatesOK sub" "item \<noteq> ''__proto__''" "item \<notin> fst ` set (fd_subfolders fd)"
  shows "aggregatesOK (addSubfolder item sub fd)"
  using assms(1,2)
  by (simp add: aggregatesOK_sel[of fd] aggregatesOK_sel[of "addSubfolder item sub fd"] addSubfolder_def
      objSet_def assms(3) update_fresh[OF assms(4)])

lemma subfolders_addPhoto: "fd_subfolders (addPhoto p fd) = fd_subfolders fd"
  by (simp add: addPhoto_def)

lemma subfolders_addSubfolder:
  "fst ` set (fd_subfolders (addSubfolder item sub fd)) \<subseteq> insert item (fst ` set (fd_subfolders fd))"
  by (auto simp: addSubfolder_def objSet_def dom_update)

lemma plainNames_Cons:
  "plainNames ((item, node) # rest) \<Longrightarrow> item \<notin> fst ` set rest \<and> plainNames rest"
  by (cases node) simp_all

lemma disjoint_step: "A' \<subseteq> insert x A \<Longrightarrow> x \<notin> R \<Longrightarrow> A \<inter> R = {} \<Longrightarrow> A' \<inter> R = {}"
  by blast

lemma scanItems_aggregates:
  "scanItems d r items fd st = Inr (fd', st') \<Longrightarrow> aggregatesOK fd \<Longrightarrow> plainNames items \<Longrightarrow>
   fst ` set (fd_subfolders fd) \<inter> fst ` set items = {} \<Longrightarrow>
   aggregatesOK fd' \<and> fst ` set (fd_subfolders fd') \<subseteq> fst ` set (fd_subfolders fd) \<union> fst ` set items"
proof (induction d r items fd st arbitrary: fd' st' rule: scanItems.induct)
  case (1 dirPath relativePath folderData st)
  then show ?case by simp
next
  case (2 dirPath relativePath item e rest folderData st)
  then show ?case by simp
next
  case (3 dirPath relativePath item e rest folderData st)
  then show ?case by simp
next
  case (4 dirPath relativePath item children rest folderData st)
  let ?d = "posix_join dirPath item" and ?r = "posix_join relativePath item"
  from "4.prems"(1) obtain sub st1 where
    sub: "scanItems ?d ?r children (newFolder ?d ?r) st = Inr (sub, st1)"
    and rest: "scanItems dirPath relativePath rest (addSubfolder item sub folderData) st1 = Inr (fd', st')"
    by (auto split: sum.splits)
  from "4.prems"(3) have pn: "item \<noteq> ''__proto__''" "item \<notin> fst ` set rest" "plainNames children" "plainNames rest"
    by simp_all
  have subOK: "aggregatesOK sub"
    using "4.IH"(1)[OF sub aggregatesOK_newFolder pn(3)] by (simp add: newFolder_def)
  have fresh: "item \<notin> fst ` set (fd_subfolders folderData)" using "4.prems"(4) by auto
  have accOK: "aggregatesOK (addSubfolder item sub folderData)"
    by (rule aggregatesOK_addSubfolder[OF "4.prems"(2) subOK pn(1) fresh])
  have disj: "fst ` set (fd_subfolders (addSubfolder item sub folderData)) \<inter> fst ` set rest = {}"
  proof (rule disjoint_step[OF subfolders_addSubfolder pn(2)])
    show "fst ` set (fd_subfolders folderData) \<inter> fst ` set rest = {}" using "4.prems"(4) by auto
  qed
  from "4.IH"(2)[OF sub refl rest accOK pn(4) disj]
  have "aggregatesOK fd' \<and> fst ` set (fd_subfolders fd')
          \<subseteq> fst ` set (fd_subfolders (addSubfolder item sub folderData)) \<union> fst ` set rest"
    by simp
  then show ?case using subfolders_addSubfolder[of item sub folderData] by (simp; blast)
next
  case (5 dirPath relativePath item fileSize mtime rest folderData st)
  from "5.prems"(3) have pn: "plainNames rest" by simp
  show ?case
  proof (cases "isImageFile item")
    case True
    let ?fd = "addPhoto \<lparr> photo_id = next_id st, photo_name = item, photo_size = fileSize,
                         photo_path = posix_join dirPath item,
                         photo_relativePath = posix_join relativePath item,
                         photo_lastModified = mtime \<rparr> folderData"
    from "5.prems"(1) True have
      rest: "scanItems dirPath relativePath rest ?fd (st\<lparr> next_id := next_id st + 1, totalPhotos := totalPhotos st + 1 \<rparr>) = Inr (fd', st')"
      by simp
    have disj: "fst ` set (fd_subfolders ?fd) \<inter> fst ` set rest = {}"
      using "5.prems"(4) by (auto simp: subfolders_addPhoto)
    from "5.IH"(1)[OF True rest aggregatesOK_addPhoto[OF "5.prems"(2)] pn disj]
    show ?thesis by (auto simp: subfolders_addPhoto)
  next
    case False
    from "5.prems"(1) False have rest: "scanItems dirPath relativePath rest folderData st = Inr (fd', st')"
      by simp
    have disj: "fst ` set (fd_subfolders folderData) \<inter> fst ` set rest = {}"
      using "5.prems"(4) by auto
    from "5.IH"(2)[OF False rest "5.prems"(2) pn disj] show ?thesis by auto
  qed
next
  case (6 dirPath relativePath item rest folderData st)
  from "6.prems"(3) have pn: "plainNames rest" by simp
  from "6.prems"(1) have rest: "scanItems dirPath relativePath rest folderData st = Inr (fd', st')" by simp
  have disj: "fst ` set (fd_subfolders folderData) \<inter> fst ` set rest = {}"
    using "6.prems"(4) by auto
  from "6.IH"[OF rest "6.prems"(2) pn disj] show ?case by auto
qed

text \<open>
  For every listing without a directory called \<^verbatim>\<open>__proto__\<close>, the invariant holds at
  every node of the tree the scan returns.
\<close>

lemma scan_aggregates:
  assumes "plainNames items" and "scanPhotos home firstId folderPath (Some (FsDir items)) = ScanResponse rootFolder n"
  shows "aggregatesOK rootFolder"
proof -
  from assms(2) obtain st where
    "scanItems (expandTilde home folderPath) [] items (newFolder (expandTilde home folderPath) [])
       \<lparr> next_id = firstId, totalPhotos = 0 \<rparr> = Inr (rootFolder, st)"
    by (auto simp: scanPhotos_def scanDirectory_def split: sum.splits)
  from scanItems_aggregates[OF this aggregatesOK_newFolder assms(1)] show ?thesis
    by (simp add: newFolder_def)
qed


text \<open>
  C3, at a root folder that holds a directory called \<^verbatim>\<open>__proto__\<close> with one image of 5
  bytes in it. \<^verbatim>\<open>folderData.subfolders[item] = subfolder\<close> reaches the prototype setter
  and creates no entry, while the two additions to the counters go ahead: the root is
  returned with count 1 and size 5, no files of its own and no child.
\<close>

theorem scan_proto_directory_breaks_aggregates:
  "scanPhotos ''/home/u'' 0 ''/data/photos''
     (Some (FsDir [(''__proto__'', FsDir [(''a.jpg'', FsFile 5 0)])]))
     = ScanResponse (FolderData ''photos'' [] [] [] 1 5) 1
   \<and> \<not> aggregatesOK (FolderData ''photos'' [] [] [] 1 5)"
  by code_simp

text \<open>An ordinary scan, for comparison.\<close>

lemma scan_example:
  "scanPhotos ''/home/u'' 0 ''~/photos''
     (Some (FsDir [(''trip'', FsDir [(''a.JPG'', FsFile 5 0), (''notes.txt'', FsFile 9 0)]), (''b.mp4'', FsFile 7 0)]))
     = ScanResponse (FolderData ''photos'' []
          [\<lparr> photo_id = 1, photo_name = ''b.mp4'', photo_size = 7, photo_path = ''/home/u/photos/b.mp4'',
             photo_relativePath = ''b.mp4'', photo_lastModified = 0 \<rparr>]
          [(''trip'', FolderData ''trip'' ''trip''
              [\<lparr> photo_id = 0, photo_name = ''a.JPG'', photo_size = 5, photo_path = ''/home/u/photos/trip/a.JPG'',
                 photo_relativePath = ''trip/a.JPG'', photo_lastModified = 0 \<rparr>] [] 1 5)]
          2 12) 2"
  by code_simp


end
